theory Spec2Isabelle
  imports Main
begin

section \<open>JavaScript values and the built-ins the editors call\<close>

text \<open>
  The two source files are the detail editor
  (\<^verbatim>\<open>src/features/modals/NodeModal/index.tsx\<close>) and the inline node editor
  (\<^verbatim>\<open>src/features/editor/views/GraphView/CustomNode/TextNode.tsx\<close>).  Both are
  TypeScript modules, hence strict-mode code.  Their logic rests on a handful of ECMAScript
  built-ins (\<^verbatim>\<open>String.prototype.trim\<close>, \<^verbatim>\<open>Number\<close>, \<^verbatim>\<open>String\<close>,
  property reads and writes, \<^verbatim>\<open>JSON.stringify\<close>), which are modelled in this
  section from the language standard.

  Modelling decisions, stated once:
  \<^item> A JavaScript string is a \<^typ>\<open>string\<close>; a character stands for a code unit below 256.
  \<^item> A number is kept as its exact decimal value \<open>m * 10 ^ e\<close> (or an infinity, or NaN); the
    rounding of that value to an IEEE double is not modelled, and \<open>-0\<close> is \<open>0\<close> (both print
    as \<^verbatim>\<open>0\<close>).
  \<^item> An object is the list of its own properties in the order \<^verbatim>\<open>Object.entries\<close> and
    \<^verbatim>\<open>JSON.stringify\<close> visit them (array-index keys ascending, then the other keys by
    insertion).
  \<^item> The prototype chain of the runtime is a parameter \<open>inh\<close> of the handlers: \<open>inh v k\<close> says
    that the value \<open>v\<close> inherits a member under the key \<open>k\<close> (\<^verbatim>\<open>toString\<close>,
    \<^verbatim>\<open>constructor\<close>, \<^verbatim>\<open>__proto__\<close> and the like).  A read or an assignment of a key that
    is not an own property but is inherited is answered by a built-in object, which is no
    document value: it ends the modelled run, and the handler's result is then \<open>None\<close>.
    The theorems hold for every \<open>inh\<close>; what they say of a run in a given runtime is their
    instance at the \<open>inh\<close> of that runtime (\<open>sample_proto\<close> below, for the examples), where
    a hypothesis that a read yields \<^verbatim>\<open>undefined\<close> fails for every inherited key.
  \<^item> An array hole is written as \<^verbatim>\<open>null\<close>, which is how \<^verbatim>\<open>JSON.stringify\<close> prints it.
  \<^item> \<^verbatim>\<open>JSON.parse\<close> is a parameter \<open>JSON_parse\<close> of the handlers; \<open>None\<close> is a thrown
    \<^verbatim>\<open>SyntaxError\<close>.
  \<^item> A number segment of a path is a natural number, as the index of an array element is.
  \<^item> The handlers return nothing; the exit a run takes is recorded as an \<open>outcome\<close>, next
    to the state it leaves.  The console messages are not modelled.
  \<^item> Where a function fills an object literal of its own (\<^verbatim>\<open>fields\<close>, \<^verbatim>\<open>obj\<close>), an
    assignment under the key \<^verbatim>\<open>__proto__\<close> goes to the accessor of \<^verbatim>\<open>Object.prototype\<close>,
    as in every browser, and stores no own property.
\<close>

subsection \<open>Strings: trim and decimal digits\<close>

definition is_ws :: "char \<Rightarrow> bool" where
  "is_ws c = (c \<in> set [CHR 0x09, CHR 0x0A, CHR 0x0B, CHR 0x0C, CHR 0x0D, CHR 0x20, CHR 0xA0])"

text \<open>\<^verbatim>\<open>raw.trim()\<close>\<close>

definition trim :: "string \<Rightarrow> string" where
  "trim s = rev (dropWhile is_ws (rev (dropWhile is_ws s)))"

definition is_digit :: "char \<Rightarrow> bool" where
  "is_digit c = (48 \<le> (of_char c :: nat) \<and> (of_char c :: nat) \<le> 57)"

text \<open>The value of a character as a digit of a radix up to 16, and 16 for any other character.\<close>

definition radix_val :: "char \<Rightarrow> nat" where
  "radix_val c =
     (let n = (of_char c :: nat) in
      if 48 \<le> n \<and> n \<le> 57 then n - 48
      else if 97 \<le> n \<and> n \<le> 102 then n - 87
      else if 65 \<le> n \<and> n \<le> 70 then n - 55
      else 16)"

definition nat_of_digits :: "nat \<Rightarrow> string \<Rightarrow> nat" where
  "nat_of_digits b ds = foldl (\<lambda>a c. a * b + radix_val c) 0 ds"

definition digit_char :: "nat \<Rightarrow> char" where
  "digit_char d = char_of (48 + d)"

fun digits_of :: "nat \<Rightarrow> string" where
  "digits_of n = (if n < 10 then [digit_char n] else digits_of (n div 10) @ [digit_char (n mod 10)])"

declare digits_of.simps [simp del]

subsection \<open>Numbers\<close>

datatype jsnum = NaN | PosInf | NegInf | Fin int int

function strip_zeros :: "int \<Rightarrow> int \<Rightarrow> int \<times> int" where
  "strip_zeros m e = (if m \<noteq> 0 \<and> m mod 10 = 0 then strip_zeros (m div 10) (e + 1) else (m, e))"
  by pat_completeness auto
termination
  by (relation "measure (\<lambda>(m, e). nat \<bar>m\<bar>)") auto

declare strip_zeros.simps [simp del]

text \<open>The number \<open>m * 10 ^ e\<close> in normal form: no trailing zero in the mantissa, zero as \<open>Fin 0 0\<close>.\<close>

definition mk_num :: "int \<Rightarrow> int \<Rightarrow> jsnum" where
  "mk_num m e = (if m = 0 then Fin 0 0 else case strip_zeros m e of (m', e') \<Rightarrow> Fin m' e')"

text \<open>
  \<^verbatim>\<open>Number(s)\<close> on a string (ECMAScript StringToNumber): white space is stripped, the empty
  string is 0, and the rest must be one StrNumericLiteral: an unsigned literal with the
  prefix 0x, 0o or 0b, or an optionally signed decimal literal or \<^verbatim>\<open>Infinity\<close>.
\<close>

fun radix_of_prefix :: "string \<Rightarrow> (nat \<times> string) option" where
  "radix_of_prefix (c0 # c1 # ds) =
     (if c0 \<noteq> CHR ''0'' then None
      else if c1 = CHR ''x'' \<or> c1 = CHR ''X'' then Some (16, ds)
      else if c1 = CHR ''o'' \<or> c1 = CHR ''O'' then Some (8, ds)
      else if c1 = CHR ''b'' \<or> c1 = CHR ''B'' then Some (2, ds)
      else None)"
| "radix_of_prefix _ = None"

definition parse_radix :: "nat \<Rightarrow> string \<Rightarrow> jsnum" where
  "parse_radix b ds =
     (if ds \<noteq> [] \<and> list_all (\<lambda>c. radix_val c < b) ds then mk_num (int (nat_of_digits b ds)) 0
      else NaN)"

definition split_sign :: "string \<Rightarrow> bool \<times> string" where
  "split_sign s =
     (case s of
        [] \<Rightarrow> (False, [])
      | c # r \<Rightarrow> if c = CHR ''-'' then (True, r) else if c = CHR ''+'' then (False, r) else (False, s))"

definition parse_exponent :: "string \<Rightarrow> int option" where
  "parse_exponent r =
     (case r of
        [] \<Rightarrow> Some 0
      | c # r' \<Rightarrow>
          if c = CHR ''e'' \<or> c = CHR ''E'' then
            (case split_sign r' of
               (neg, ds) \<Rightarrow>
                 if ds \<noteq> [] \<and> list_all is_digit ds
                 then Some ((if neg then - 1 else 1) * int (nat_of_digits 10 ds))
                 else None)
          else None)"

text \<open>Integer digits, an optional fraction after a dot, an optional exponent: the mantissa
  and the power of ten.\<close>

definition parse_unsigned_decimal :: "string \<Rightarrow> (int \<times> int) option" where
  "parse_unsigned_decimal r =
     (let ip = takeWhile is_digit r;
          r1 = dropWhile is_digit r;
          fp = (case r1 of [] \<Rightarrow> [] | c # r' \<Rightarrow> if c = CHR ''.'' then takeWhile is_digit r' else []);
          r2 = (case r1 of [] \<Rightarrow> [] | c # r' \<Rightarrow> if c = CHR ''.'' then dropWhile is_digit r' else r1)
      in if ip = [] \<and> fp = [] then None
         else (case parse_exponent r2 of
                 None \<Rightarrow> None
               | Some ex \<Rightarrow> Some (int (nat_of_digits 10 (ip @ fp)), ex - int (length fp))))"

definition parse_decimal :: "string \<Rightarrow> jsnum" where
  "parse_decimal t =
     (case split_sign t of
        (neg, r) \<Rightarrow>
          if r = ''Infinity'' then (if neg then NegInf else PosInf)
          else (case parse_unsigned_decimal r of
                  None \<Rightarrow> NaN
                | Some (m, e) \<Rightarrow> mk_num (if neg then - m else m) e))"

definition toNumber :: "string \<Rightarrow> jsnum" where
  "toNumber s =
     (let t = trim s in
      if t = [] then Fin 0 0
      else (case radix_of_prefix t of
              Some (b, ds) \<Rightarrow> parse_radix b ds
            | None \<Rightarrow> parse_decimal t))"

text \<open>\<^verbatim>\<open>Number::toString\<close> of a positive number with decimal digits \<open>ds\<close> and exponent \<open>e\<close>:
  plain digits up to 21 integer digits, a leading \<^verbatim>\<open>0.\<close> down to \<open>1e-6\<close>, and the exponent
  form otherwise.\<close>

definition pos_to_string :: "nat \<Rightarrow> int \<Rightarrow> string" where
  "pos_to_string m e =
     (let ds = digits_of m; k = int (length ds); n = k + e in
      if k \<le> n \<and> n \<le> 21 then ds @ replicate (nat (n - k)) (CHR ''0'')
      else if 0 < n \<and> n \<le> 21 then take (nat n) ds @ ''.'' @ drop (nat n) ds
      else if - 6 < n \<and> n \<le> 0 then ''0.'' @ replicate (nat (- n)) (CHR ''0'') @ ds
      else (let ex = n - 1;
                sg = (if ex < 0 then ''-'' else ''+'');
                exs = digits_of (nat \<bar>ex\<bar>)
            in if k = 1 then ds @ ''e'' @ sg @ exs
               else take 1 ds @ ''.'' @ drop 1 ds @ ''e'' @ sg @ exs))"

definition num_to_string :: "jsnum \<Rightarrow> string" where
  "num_to_string x =
     (case x of
        NaN \<Rightarrow> ''NaN''
      | PosInf \<Rightarrow> ''Infinity''
      | NegInf \<Rightarrow> ''-Infinity''
      | Fin m e \<Rightarrow>
          if m = 0 then ''0''
          else (if m < 0 then ''-'' else '''') @ pos_to_string (nat \<bar>m\<bar>) e)"

subsection \<open>Document values\<close>

datatype scalar = SNull | SBool bool | SNum jsnum | SStr string

datatype json = Lit scalar | Arr "json list" | Obj "(string \<times> json) list"

datatype seg = Key string | Idx nat

datatype js_error = TypeError | RangeError | SyntaxError

text \<open>What ends a walk through the document before it reaches a document value: a thrown
  error, or a member of a built-in prototype.\<close>

datatype stop = Threw js_error | Inherited

type_synonym proto = "json \<Rightarrow> string \<Rightarrow> bool"

text \<open>\<^verbatim>\<open>String(v)\<close> and the template literal on a scalar.\<close>

definition js_String :: "scalar \<Rightarrow> string" where
  "js_String v =
     (case v of
        SNull \<Rightarrow> ''null''
      | SBool b \<Rightarrow> (if b then ''true'' else ''false'')
      | SNum n \<Rightarrow> num_to_string n
      | SStr s \<Rightarrow> s)"

text \<open>The property key of a path segment (ToPropertyKey): a number segment is printed.\<close>

definition prop_key :: "seg \<Rightarrow> string" where
  "prop_key s = (case s of Key k \<Rightarrow> k | Idx i \<Rightarrow> num_to_string (mk_num (int i) 0))"

text \<open>An array index is a key that is the canonical decimal form of a number below \<open>2^32 - 1\<close>.\<close>

definition index_of_key :: "string \<Rightarrow> nat option" where
  "index_of_key k =
     (if k \<noteq> [] \<and> list_all is_digit k \<and> digits_of (nat_of_digits 10 k) = k
         \<and> int (nat_of_digits 10 k) < 4294967295
      then Some (nat_of_digits 10 k) else None)"

subsection \<open>Own properties of an object, in JavaScript's key order\<close>

fun obj_replace :: "string \<Rightarrow> 'v \<Rightarrow> (string \<times> 'v) list \<Rightarrow> (string \<times> 'v) list" where
  "obj_replace k v [] = []"
| "obj_replace k v ((k', v') # kvs) =
     (if k' = k then (k, v) # kvs else (k', v') # obj_replace k v kvs)"

definition comes_before :: "string \<Rightarrow> string \<Rightarrow> bool" where
  "comes_before k k' =
     (case index_of_key k of
        None \<Rightarrow> False
      | Some i \<Rightarrow> (case index_of_key k' of None \<Rightarrow> True | Some j \<Rightarrow> i < j))"

fun obj_insert :: "string \<Rightarrow> 'v \<Rightarrow> (string \<times> 'v) list \<Rightarrow> (string \<times> 'v) list" where
  "obj_insert k v [] = [(k, v)]"
| "obj_insert k v ((k', v') # kvs) =
     (if comes_before k k' then (k, v) # (k', v') # kvs else (k', v') # obj_insert k v kvs)"

text \<open>\<^verbatim>\<open>obj[k] = v\<close> on a plain object: an existing property keeps its place, a new one is
  placed by the key order.\<close>

definition obj_set :: "string \<Rightarrow> 'v \<Rightarrow> (string \<times> 'v) list \<Rightarrow> (string \<times> 'v) list" where
  "obj_set k v kvs = (if map_of kvs k \<noteq> None then obj_replace k v kvs else obj_insert k v kvs)"

text \<open>\<^verbatim>\<open>fields[k] = v\<close> for a string \<open>v\<close>, on the object literal that
  \<^verbatim>\<open>extractEditableFields\<close> fills: under the key \<^verbatim>\<open>__proto__\<close>, which such an object never
  owns, the assignment reaches the accessor of \<^verbatim>\<open>Object.prototype\<close>, which ignores a
  string and stores nothing.\<close>

definition literal_set :: "string \<Rightarrow> 'v \<Rightarrow> (string \<times> 'v) list \<Rightarrow> (string \<times> 'v) list" where
  "literal_set k v kvs = (if k = ''__proto__'' then kvs else obj_set k v kvs)"

subsection \<open>Reading and writing a property\<close>

definition arr_get :: "json list \<Rightarrow> string \<Rightarrow> json option" where
  "arr_get xs k =
     (case index_of_key k of
        Some i \<Rightarrow> if i < length xs then Some (xs ! i) else None
      | None \<Rightarrow> if k = ''length'' then Some (Lit (SNum (mk_num (int (length xs)) 0))) else None)"

definition str_get :: "string \<Rightarrow> string \<Rightarrow> json option" where
  "str_get str k =
     (case index_of_key k of
        Some i \<Rightarrow> if i < length str then Some (Lit (SStr [str ! i])) else None
      | None \<Rightarrow> if k = ''length'' then Some (Lit (SNum (mk_num (int (length str)) 0))) else None)"

text \<open>The own properties of a value: the entries of an object, the elements and the
  \<^verbatim>\<open>length\<close> of an array, the characters and the \<^verbatim>\<open>length\<close> of a string.\<close>

definition own_prop :: "json \<Rightarrow> string \<Rightarrow> json option" where
  "own_prop v k =
     (case v of
        Obj kvs \<Rightarrow> map_of kvs k
      | Arr xs \<Rightarrow> arr_get xs k
      | Lit (SStr str) \<Rightarrow> str_get str k
      | Lit l \<Rightarrow> None)"

text \<open>\<^verbatim>\<open>v[s]\<close>: \<open>Inl (Threw TypeError)\<close> is the error of reading a property of \<^verbatim>\<open>null\<close>,
  \<open>Inr (Some x)\<close> an own property, \<open>Inl Inherited\<close> a member of the prototype chain, and
  \<open>Inr None\<close> is \<^verbatim>\<open>undefined\<close>: the key is neither an own property nor inherited.\<close>

definition get_prop :: "proto \<Rightarrow> json \<Rightarrow> seg \<Rightarrow> stop + json option" where
  "get_prop inh v s =
     (if v = Lit SNull then Inl (Threw TypeError)
      else (case own_prop v (prop_key s) of
              Some x \<Rightarrow> Inr (Some x)
            | None \<Rightarrow> if inh v (prop_key s) then Inl Inherited else Inr None))"

text \<open>ToNumber of a scalar, for an assignment to the \<^verbatim>\<open>length\<close> of an array.\<close>

definition scalar_to_number :: "scalar \<Rightarrow> jsnum" where
  "scalar_to_number v =
     (case v of
        SNull \<Rightarrow> Fin 0 0
      | SBool b \<Rightarrow> (if b then Fin 1 0 else Fin 0 0)
      | SNum n \<Rightarrow> n
      | SStr s \<Rightarrow> toNumber s)"

definition set_length :: "json list \<Rightarrow> scalar \<Rightarrow> stop + json" where
  "set_length xs v =
     (case scalar_to_number v of
        Fin m e \<Rightarrow>
          if 0 \<le> m \<and> 0 \<le> e \<and> m * 10 ^ nat e < 4294967296
          then (let n = nat (m * 10 ^ nat e)
                in Inr (Arr (take n xs @ replicate (n - length xs) (Lit SNull))))
          else Inl (Threw RangeError)
      | _ \<Rightarrow> Inl (Threw RangeError))"

definition arr_set :: "json list \<Rightarrow> string \<Rightarrow> scalar \<Rightarrow> stop + json" where
  "arr_set xs k v =
     (case index_of_key k of
        Some i \<Rightarrow>
          Inr (Arr (if i < length xs then xs[i := Lit v]
                    else xs @ replicate (i - length xs) (Lit SNull) @ [Lit v]))
      | None \<Rightarrow> if k = ''length'' then set_length xs v else Inr (Arr xs))"

text \<open>\<^verbatim>\<open>container[s] = v\<close> for a scalar \<open>v\<close> (every assignment of the two handlers stores a
  result of \<^verbatim>\<open>parseDraftValue\<close>); the result is the container after the assignment.  A key
  that is not an own property but is inherited is assigned through the prototype chain
  (a setter such as that of \<^verbatim>\<open>__proto__\<close>, or a member that shadows or refuses the
  assignment): \<open>Inl Inherited\<close>.  Otherwise an object and an array store the value, and in
  strict mode a property of a primitive cannot be assigned.  A property of an array that is
  neither an index nor \<^verbatim>\<open>length\<close> is not printed by \<^verbatim>\<open>JSON.stringify\<close>, so the array is
  returned as it was.\<close>

definition set_prop :: "proto \<Rightarrow> json \<Rightarrow> seg \<Rightarrow> scalar \<Rightarrow> stop + json" where
  "set_prop inh target s v =
     (if target = Lit SNull then Inl (Threw TypeError)
      else if own_prop target (prop_key s) = None \<and> inh target (prop_key s) then Inl Inherited
      else (case target of
              Obj kvs \<Rightarrow> Inr (Obj (obj_set (prop_key s) (Lit v) kvs))
            | Arr xs \<Rightarrow> arr_set xs (prop_key s) v
            | Lit l \<Rightarrow> Inl (Threw TypeError)))"

text \<open>The handlers mutate a node they reached from the root, in place.  In the model the
  node is changed as a value and written back at its address: \<open>put_back root segs new\<close> is
  \<open>root\<close> with the node at path \<open>segs\<close> replaced by \<open>new\<close>.\<close>

fun put_back :: "json \<Rightarrow> seg list \<Rightarrow> json \<Rightarrow> json" where
  "put_back node [] new = new"
| "put_back (Obj kvs) (s # segs) new =
     (case map_of kvs (prop_key s) of
        None \<Rightarrow> Obj kvs
      | Some child \<Rightarrow> Obj (obj_replace (prop_key s) (put_back child segs new) kvs))"
| "put_back (Arr xs) (s # segs) new =
     (case index_of_key (prop_key s) of
        None \<Rightarrow> Arr xs
      | Some i \<Rightarrow> if i < length xs then Arr (xs[i := put_back (xs ! i) segs new]) else Arr xs)"
| "put_back (Lit l) (s # segs) new = Lit l"

subsection \<open>JSON.stringify with an indentation of two spaces\<close>

definition hex_char :: "nat \<Rightarrow> char" where
  "hex_char d = (if d < 10 then char_of (48 + d) else char_of (87 + d))"

definition quote_char :: "char \<Rightarrow> string" where
  "quote_char c =
     (if c = CHR 0x08 then [CHR 0x5C, CHR ''b'']
      else if c = CHR 0x09 then [CHR 0x5C, CHR ''t'']
      else if c = CHR 0x0A then [CHR 0x5C, CHR ''n'']
      else if c = CHR 0x0C then [CHR 0x5C, CHR ''f'']
      else if c = CHR 0x0D then [CHR 0x5C, CHR ''r'']
      else if c = CHR 0x22 then [CHR 0x5C, CHR 0x22]
      else if c = CHR 0x5C then [CHR 0x5C, CHR 0x5C]
      else if (of_char c :: nat) < 32
        then [CHR 0x5C, CHR ''u'', CHR ''0'', CHR ''0'',
              hex_char ((of_char c :: nat) div 16), hex_char ((of_char c :: nat) mod 16)]
      else [c])"

definition quote :: "string \<Rightarrow> string" where
  "quote s = [CHR 0x22] @ concat (map quote_char s) @ [CHR 0x22]"

definition scalar_text :: "scalar \<Rightarrow> string" where
  "scalar_text v =
     (case v of
        SNull \<Rightarrow> ''null''
      | SBool b \<Rightarrow> (if b then ''true'' else ''false'')
      | SNum n \<Rightarrow> (case n of Fin m e \<Rightarrow> num_to_string n | _ \<Rightarrow> ''null'')
      | SStr s \<Rightarrow> quote s)"

fun join_lines :: "string list \<Rightarrow> string" where
  "join_lines [] = []"
| "join_lines [l] = l"
| "join_lines (l # ls) = l @ [CHR '','', CHR 0x0A] @ join_lines ls"

text \<open>\<open>stringify_at ind v\<close> prints \<open>v\<close> nested at the indentation \<open>ind\<close>.\<close>

fun stringify_at :: "string \<Rightarrow> json \<Rightarrow> string" where
  "stringify_at ind (Lit v) = scalar_text v"
| "stringify_at ind (Arr xs) =
     (if xs = [] then ''[]''
      else ''['' @ [CHR 0x0A]
           @ join_lines (map (\<lambda>x. ind @ ''  '' @ stringify_at (ind @ ''  '') x) xs)
           @ [CHR 0x0A] @ ind @ '']'')"
| "stringify_at ind (Obj kvs) =
     (if kvs = [] then ''{}''
      else ''{'' @ [CHR 0x0A]
           @ join_lines
               (map (\<lambda>kv. ind @ ''  '' @ quote (fst kv) @ '': '' @ stringify_at (ind @ ''  '') (snd kv)) kvs)
           @ [CHR 0x0A] @ ind @ ''}'')"

text \<open>\<^verbatim>\<open>JSON.stringify(root, null, 2)\<close>\<close>

definition stringify :: "json \<Rightarrow> string" where
  "stringify v = stringify_at [] v"

section \<open>The node rows and their projection (NodeModal)\<close>

datatype row_type = TString | TNumber | TBoolean | TNull | TObject | TArray

text \<open>A row of a graph node; \<open>row_key = None\<close> is a \<^verbatim>\<open>null\<close> key and \<open>row_value = None\<close>
  a value that is left out.\<close>

record NodeRow =
  row_key :: "string option"
  row_value :: "scalar option"
  row_type :: row_type

text \<open>The truthiness of \<^verbatim>\<open>row.key\<close>: neither \<^verbatim>\<open>null\<close> nor the empty string.\<close>

definition has_key :: "NodeRow \<Rightarrow> bool" where
  "has_key r = (case row_key r of None \<Rightarrow> False | Some k \<Rightarrow> k \<noteq> [])"

definition key_of :: "NodeRow \<Rightarrow> string" where
  "key_of r = (case row_key r of None \<Rightarrow> [] | Some k \<Rightarrow> k)"

definition is_container_row :: "NodeRow \<Rightarrow> bool" where
  "is_container_row r = (row_type r = TArray \<or> row_type r = TObject)"

text \<open>The template literal on a row value: \<^verbatim>\<open>undefined\<close> is printed as such.\<close>

definition template_of :: "scalar option \<Rightarrow> string" where
  "template_of v = (case v of None \<Rightarrow> ''undefined'' | Some s \<Rightarrow> js_String s)"

text \<open>The loop of \<^verbatim>\<open>normalizeNodeData\<close>: \<open>obj[row.key] = row.value\<close> for the keyed rows
  that are not containers, on an object literal \<open>obj\<close>.  Under the key \<^verbatim>\<open>__proto__\<close> the
  assignment reaches the accessor of \<^verbatim>\<open>Object.prototype\<close>: the value \<^verbatim>\<open>null\<close> detaches
  \<open>obj\<close> from its prototype, and any other scalar and \<^verbatim>\<open>undefined\<close> are ignored; no own
  property is stored.  Once detached (\<open>bare\<close>), \<open>obj\<close> stores \<^verbatim>\<open>__proto__\<close> like any other
  key.\<close>

fun collect_rows ::
  "bool \<Rightarrow> (string \<times> scalar option) list \<Rightarrow> NodeRow list \<Rightarrow> (string \<times> scalar option) list" where
  "collect_rows bare obj [] = obj"
| "collect_rows bare obj (row # rows) =
     (if \<not> is_container_row row \<and> has_key row then
        (if key_of row = ''__proto__'' \<and> \<not> bare
         then collect_rows (row_value row = Some SNull) obj rows
         else collect_rows bare (obj_set (key_of row) (row_value row) obj) rows)
      else collect_rows bare obj rows)"

text \<open>\<^verbatim>\<open>JSON.stringify\<close> leaves out a property whose value is \<^verbatim>\<open>undefined\<close>.\<close>

fun defined_props :: "(string \<times> scalar option) list \<Rightarrow> (string \<times> json) list" where
  "defined_props [] = []"
| "defined_props ((k, None) # kvs) = defined_props kvs"
| "defined_props ((k, Some v) # kvs) = (k, Lit v) # defined_props kvs"

definition normalizeNodeData :: "NodeRow list \<Rightarrow> string" where
  "normalizeNodeData nodeRows =
     (if nodeRows = [] then ''{}''
      else if length nodeRows = 1 \<and> \<not> has_key (hd nodeRows) then template_of (row_value (hd nodeRows))
      else stringify (Obj (defined_props (collect_rows False [] nodeRows))))"

text \<open>The field text of a row value: empty for \<^verbatim>\<open>null\<close> and \<^verbatim>\<open>undefined\<close>.\<close>

definition field_text :: "scalar option \<Rightarrow> string" where
  "field_text v = (case v of None \<Rightarrow> [] | Some SNull \<Rightarrow> [] | Some s \<Rightarrow> js_String s)"

fun collect_fields :: "(string \<times> string) list \<Rightarrow> NodeRow list \<Rightarrow> (string \<times> string) list" where
  "collect_fields flds [] = flds"
| "collect_fields flds (row # rows) =
     collect_fields
       (if \<not> is_container_row row \<and> has_key row
        then literal_set (key_of row) (field_text (row_value row)) flds
        else flds)
       rows"

definition extractEditableFields :: "NodeRow list \<Rightarrow> (string \<times> string) list" where
  "extractEditableFields nodeRows = collect_fields [] nodeRows"

text \<open>The projection of the specification: the display string and the field map.\<close>

definition project :: "NodeRow list \<Rightarrow> string \<times> (string \<times> string) list" where
  "project rows = (normalizeNodeData rows, extractEditableFields rows)"

section \<open>Coercion of a draft text\<close>

text \<open>\<^verbatim>\<open>parseDraftValue\<close>; the detail editor and the inline editor each declare it, with
  the same text.\<close>

definition parseDraftValue :: "string \<Rightarrow> scalar" where
  "parseDraftValue raw =
     (let trimmed = trim raw in
      if trimmed = ''null'' then SNull
      else if trimmed = ''true'' then SBool True
      else if trimmed = ''false'' then SBool False
      else if trimmed \<noteq> [] \<and> toNumber trimmed \<noteq> NaN then SNum (toNumber trimmed)
      else SStr raw)"

text \<open>The third rule as the specification words it: the whole trimmed string is a number
  written by the decimal and exponent rules (an optional sign, digits with an optional
  fraction, an optional exponent).\<close>

definition exponent_ok :: "string \<Rightarrow> bool" where
  "exponent_ok r =
     (case r of
        [] \<Rightarrow> True
      | c # r' \<Rightarrow> (c = CHR ''e'' \<or> c = CHR ''E'')
                   \<and> snd (split_sign r') \<noteq> [] \<and> list_all is_digit (snd (split_sign r')))"

definition decimal_literal :: "string \<Rightarrow> bool" where
  "decimal_literal t =
     (let r = snd (split_sign t); ip = takeWhile is_digit r; r1 = dropWhile is_digit r in
      case r1 of
        [] \<Rightarrow> ip \<noteq> []
      | c # r' \<Rightarrow>
          if c = CHR ''.''
          then (ip \<noteq> [] \<or> takeWhile is_digit r' \<noteq> []) \<and> exponent_ok (dropWhile is_digit r')
          else ip \<noteq> [] \<and> exponent_ok r1)"

text \<open>What \<^verbatim>\<open>Number\<close> accepts beyond that: a signed \<^verbatim>\<open>Infinity\<close> and the unsigned
  literals with a radix prefix.\<close>

definition infinity_literal :: "string \<Rightarrow> bool" where
  "infinity_literal t = (t = ''Infinity'' \<or> t = ''+Infinity'' \<or> t = ''-Infinity'')"

definition radix_literal :: "string \<Rightarrow> bool" where
  "radix_literal t =
     (case radix_of_prefix t of
        None \<Rightarrow> False
      | Some (b, ds) \<Rightarrow> ds \<noteq> [] \<and> list_all (\<lambda>c. radix_val c < b) ds)"

section \<open>The stores and the edit session\<close>

text \<open>The document text store (\<^verbatim>\<open>useJson\<close>), the raw content buffer of the text editor
  (\<^verbatim>\<open>useFile\<close>) and the editing flag of the component.\<close>

record app =
  json_store :: string
  file_contents :: string
  isEditing :: bool

text \<open>Modelled from the spec: the store modules \<^verbatim>\<open>store/useJson\<close> and \<^verbatim>\<open>store/useFile\<close>
  are not among the sources.  Section 6 gives the document text store the operations
  \<^verbatim>\<open>getDocumentText\<close> and \<^verbatim>\<open>setDocumentText\<close> and the raw content buffer the operation
  \<^verbatim>\<open>setContents\<close>; each setter writes its own store.\<close>

definition getJson :: "app \<Rightarrow> string" where
  "getJson st = json_store st"

definition setJson :: "string \<Rightarrow> app \<Rightarrow> app" where
  "setJson t st = st\<lparr>json_store := t\<rparr>"

definition setContents :: "string \<Rightarrow> app \<Rightarrow> app" where
  "setContents t st = st\<lparr>file_contents := t\<rparr>"

definition setIsEditing :: "bool \<Rightarrow> app \<Rightarrow> app" where
  "setIsEditing b st = st\<lparr>isEditing := b\<rparr>"

text \<open>The exits of a save handler.\<close>

datatype outcome = NoNode | NoChange | NoPath | InvalidPath | Caught js_error | Published

text \<open>\<^verbatim>\<open>currentJson ? JSON.parse(currentJson) : {}\<close>: the empty text is falsy.\<close>

definition read_root :: "(string \<Rightarrow> json option) \<Rightarrow> app \<Rightarrow> js_error + json" where
  "read_root JSON_parse st =
     (let currentJson = getJson st in
      if currentJson = [] then Inr (Obj [])
      else (case JSON_parse currentJson of None \<Rightarrow> Inl SyntaxError | Some root \<Rightarrow> Inr root))"

section \<open>The detail editor: NodeModal.handleSave\<close>

record NodeData =
  node_text :: "NodeRow list"
  node_path :: "seg list option"

text \<open>The loop over the segments \<open>0 .. length - 2\<close>: \<open>Inl (Threw err)\<close> is a thrown error,
  \<open>Inl Inherited\<close> a parent taken from the prototype chain, \<open>Inr None\<close> the return at an
  \<^verbatim>\<open>undefined\<close> parent.\<close>

fun modal_walk :: "proto \<Rightarrow> json \<Rightarrow> seg list \<Rightarrow> stop + json option" where
  "modal_walk inh parent [] = Inr (Some parent)"
| "modal_walk inh parent (s # segs) =
     (case get_prop inh parent s of
        Inl stop \<Rightarrow> Inl stop
      | Inr None \<Rightarrow> Inr None
      | Inr (Some parent') \<Rightarrow> modal_walk inh parent' segs)"

text \<open>\<^verbatim>\<open>nodeTarget[key] = parseDraftValue(value)\<close> for an entry of \<^verbatim>\<open>Object.entries(fields)\<close>.
  The fields object is filled by \<^verbatim>\<open>extractEditableFields\<close> and copied by spreads over
  its own keys, so it never owns the key \<^verbatim>\<open>__proto__\<close>; every other member that the
  standard prototypes give an object is a writable data property, which an assignment
  shadows.  On a plain object the assignment therefore stores an own property.\<close>

definition set_field :: "proto \<Rightarrow> json \<Rightarrow> string \<Rightarrow> scalar \<Rightarrow> stop + json" where
  "set_field inh nodeTarget k v =
     (case nodeTarget of
        Obj kvs \<Rightarrow> Inr (Obj (obj_set k (Lit v) kvs))
      | _ \<Rightarrow> set_prop inh nodeTarget (Key k) v)"

text \<open>\<^verbatim>\<open>Object.entries(fields).forEach(([key, value]) => nodeTarget[key] = parseDraftValue(value))\<close>\<close>

fun assign_fields :: "proto \<Rightarrow> json \<Rightarrow> (string \<times> string) list \<Rightarrow> stop + json" where
  "assign_fields inh nodeTarget [] = Inr nodeTarget"
| "assign_fields inh nodeTarget ((k, raw) # rest) =
     (case set_field inh nodeTarget k (parseDraftValue raw) of
        Inl stop \<Rightarrow> Inl stop
      | Inr nodeTarget' \<Rightarrow> assign_fields inh nodeTarget' rest)"

text \<open>\<^verbatim>\<open>Object.values(fields)[0] ?? ""\<close>\<close>

definition firstFieldValue :: "(string \<times> string) list \<Rightarrow> string" where
  "firstFieldValue flds = (case flds of [] \<Rightarrow> [] | (k, v) # rest \<Rightarrow> v)"

text \<open>The body of the try block up to the serialisation: \<open>Inl (Threw err)\<close> is a thrown
  error, \<open>Inl Inherited\<close> a run that left the document, \<open>Inr None\<close> the return at an
  invalid path, \<open>Inr (Some root')\<close> the root after the mutation.  With an empty path the
  branch for a root that is not a plain object stores the coerced value in the local
  variable \<^verbatim>\<open>nodeTarget\<close> only; \<^verbatim>\<open>typeof null\<close> is \<^verbatim>\<open>"object"\<close>, so a \<^verbatim>\<open>null\<close> root takes
  the field branch.\<close>

definition modal_commit :: "proto \<Rightarrow> json \<Rightarrow> seg list \<Rightarrow> (string \<times> string) list \<Rightarrow> stop + json option" where
  "modal_commit inh root path flds =
     (if path \<noteq> [] then
        (case modal_walk inh root (butlast path) of
           Inl stop \<Rightarrow> Inl stop
         | Inr None \<Rightarrow> Inr None
         | Inr (Some parent) \<Rightarrow>
             (case get_prop inh parent (last path) of
                Inl stop \<Rightarrow> Inl stop
              | Inr (Some (Obj kvs)) \<Rightarrow>
                  (case assign_fields inh (Obj kvs) flds of
                     Inl stop \<Rightarrow> Inl stop
                   | Inr nodeTarget' \<Rightarrow> Inr (Some (put_back root path nodeTarget')))
              | Inr _ \<Rightarrow>
                  (case set_prop inh parent (last path) (parseDraftValue (firstFieldValue flds)) of
                     Inl stop \<Rightarrow> Inl stop
                   | Inr parent' \<Rightarrow> Inr (Some (put_back root (butlast path) parent')))))
      else
        (case root of
           Obj kvs \<Rightarrow> map_sum id Some (assign_fields inh root flds)
         | Lit SNull \<Rightarrow> map_sum id Some (assign_fields inh root flds)
         | _ \<Rightarrow> Inr (Some root)))"

text \<open>The handler: \<open>None\<close> is a run that read or assigned a member of a built-in prototype;
  what such a run does from there lies outside the model.\<close>

definition NodeModal_handleSave ::
  "proto \<Rightarrow> (string \<Rightarrow> json option) \<Rightarrow> NodeData option \<Rightarrow> (string \<times> string) list \<Rightarrow> app
     \<Rightarrow> (outcome \<times> app) option" where
  "NodeModal_handleSave inh JSON_parse nodeData flds st =
     (case nodeData of
        None \<Rightarrow> Some (NoNode, setIsEditing False st)
      | Some nd \<Rightarrow>
          (case read_root JSON_parse st of
             Inl err \<Rightarrow> Some (Caught err, setIsEditing False st)
           | Inr root \<Rightarrow>
               (case modal_commit inh root (case node_path nd of None \<Rightarrow> [] | Some p \<Rightarrow> p) flds of
                  Inl (Threw err) \<Rightarrow> Some (Caught err, setIsEditing False st)
                | Inl Inherited \<Rightarrow> None
                | Inr None \<Rightarrow> Some (InvalidPath, setIsEditing False st)
                | Inr (Some root') \<Rightarrow>
                    (let updatedJson = stringify root'
                     in Some (Published,
                              setIsEditing False (setContents updatedJson (setJson updatedJson st)))))))"

section \<open>The inline editor: TextNode.handleSave\<close>

text \<open>\<^verbatim>\<open>String(value ?? "")\<close>\<close>

definition value_text :: "scalar option \<Rightarrow> string" where
  "value_text v = (case v of None \<Rightarrow> [] | Some SNull \<Rightarrow> [] | Some s \<Rightarrow> js_String s)"

text \<open>The loop of the inline editor tests \<^verbatim>\<open>target[key] === undefined\<close> before it
  steps.\<close>

fun inline_walk :: "proto \<Rightarrow> json \<Rightarrow> seg list \<Rightarrow> stop + json option" where
  "inline_walk inh target [] = Inr (Some target)"
| "inline_walk inh target (k # segs) =
     (case get_prop inh target k of
        Inl stop \<Rightarrow> Inl stop
      | Inr None \<Rightarrow> Inr None
      | Inr (Some next_target) \<Rightarrow> inline_walk inh next_target segs)"

definition inline_commit :: "proto \<Rightarrow> json \<Rightarrow> seg list \<Rightarrow> string \<Rightarrow> stop + json option" where
  "inline_commit inh parsed path draft =
     (case inline_walk inh parsed (butlast path) of
        Inl stop \<Rightarrow> Inl stop
      | Inr None \<Rightarrow> Inr None
      | Inr (Some target) \<Rightarrow>
          (case set_prop inh target (last path) (parseDraftValue draft) of
             Inl stop \<Rightarrow> Inl stop
           | Inr target' \<Rightarrow> Inr (Some (put_back parsed (butlast path) target'))))"

text \<open>The arguments are the value of the node's first row, the draft and the path of the
  node; \<open>None\<close> is a run that left the document, as for the detail editor.\<close>

definition TextNode_handleSave ::
  "proto \<Rightarrow> (string \<Rightarrow> json option) \<Rightarrow> scalar option \<Rightarrow> string \<Rightarrow> seg list option \<Rightarrow> app
     \<Rightarrow> (outcome \<times> app) option" where
  "TextNode_handleSave inh JSON_parse val draft path st =
     (if value_text val = draft then Some (NoChange, setIsEditing False st)
      else (case path of
              None \<Rightarrow> Some (NoPath, setIsEditing False st)
            | Some p \<Rightarrow>
                if p = [] then Some (NoPath, setIsEditing False st)
                else (case read_root JSON_parse st of
                        Inl err \<Rightarrow> Some (Caught err, setIsEditing False st)
                      | Inr parsed \<Rightarrow>
                          (case inline_commit inh parsed p draft of
                             Inl (Threw err) \<Rightarrow> Some (Caught err, setIsEditing False st)
                           | Inl Inherited \<Rightarrow> None
                           | Inr None \<Rightarrow> Some (InvalidPath, setIsEditing False st)
                           | Inr (Some parsed') \<Rightarrow>
                               Some (Published, setIsEditing False (setJson (stringify parsed') st))))))"

section \<open>Notions used to state the properties\<close>

text \<open>The value a path addresses, \<^verbatim>\<open>root[p0][p1]...\<close>, read with the property reads of
  the handlers' loops: \<open>Inr None\<close> is \<^verbatim>\<open>undefined\<close>, and \<open>Inr (Some v)\<close> is reached through
  own properties only.\<close>

definition value_at :: "proto \<Rightarrow> json \<Rightarrow> seg list \<Rightarrow> stop + json option" where
  "value_at inh root path = modal_walk inh root path"

text \<open>A runtime for the examples: every value but \<^verbatim>\<open>null\<close> inherits the members of
  \<^verbatim>\<open>Object.prototype\<close>.  (An array, a string, a number and a boolean inherit more; the
  examples touch none of it.)\<close>

definition object_members :: "string list" where
  "object_members =
     [''constructor'', ''hasOwnProperty'', ''isPrototypeOf'', ''propertyIsEnumerable'',
      ''toLocaleString'', ''toString'', ''valueOf'', ''__proto__'', ''__defineGetter__'',
      ''__defineSetter__'', ''__lookupGetter__'', ''__lookupSetter__'']"

definition sample_proto :: proto where
  "sample_proto v k = (v \<noteq> Lit SNull \<and> k \<in> set object_members)"

text \<open>Modelled from the spec: the graph builder that derives the rows of a node from the
  document is not among the sources.  By section 3 a node aggregates one row per entry,
  with the key, the scalar value (left out for a container) and the type of the entry.\<close>

definition type_of :: "json \<Rightarrow> row_type" where
  "type_of v =
     (case v of
        Lit SNull \<Rightarrow> TNull
      | Lit (SBool b) \<Rightarrow> TBoolean
      | Lit (SNum n) \<Rightarrow> TNumber
      | Lit (SStr s) \<Rightarrow> TString
      | Arr xs \<Rightarrow> TArray
      | Obj kvs \<Rightarrow> TObject)"

definition row_of :: "string \<times> json \<Rightarrow> NodeRow" where
  "row_of kv =
     \<lparr>row_key = Some (fst kv),
      row_value = (case snd kv of Lit s \<Rightarrow> Some s | _ \<Rightarrow> None),
      row_type = type_of (snd kv)\<rparr>"

definition rows_of_object :: "(string \<times> json) list \<Rightarrow> NodeRow list" where
  "rows_of_object kvs = map row_of kvs"

text \<open>The numbers of the model in normal form, as \<open>mk_num\<close> builds them; NaN is no value of
  a document.\<close>

definition num_normal :: "jsnum \<Rightarrow> bool" where
  "num_normal n =
     (case n of
        NaN \<Rightarrow> False
      | PosInf \<Rightarrow> True
      | NegInf \<Rightarrow> True
      | Fin m e \<Rightarrow> if m = 0 then e = 0 else m mod 10 \<noteq> 0)"

text \<open>The scalars that saving their own field text gives back: every boolean, every number,
  and a string that coerces to itself; not \<^verbatim>\<open>null\<close>, whose field text is empty.\<close>

definition coerces_back :: "scalar \<Rightarrow> bool" where
  "coerces_back s =
     (case s of
        SNull \<Rightarrow> False
      | SBool b \<Rightarrow> True
      | SNum n \<Rightarrow> num_normal n
      | SStr t \<Rightarrow> parseDraftValue t = SStr t)"

text \<open>The shape of a printed positive number: digits at both ends, and digits, a point,
  an exponent mark or a sign between.\<close>

definition printable :: "string \<Rightarrow> bool" where
  "printable s = (s \<noteq> [] \<and> is_digit (hd s) \<and> is_digit (last s)
     \<and> list_all (\<lambda>x. is_digit x \<or> x = CHR ''.'' \<or> x = CHR ''e'' \<or> x = CHR ''+'' \<or> x = CHR ''-'') s)"

section \<open>Properties\<close>

subsection \<open>Coercion\<close>

lemma dropWhile_rev_hd:
  assumes stable: "dropWhile P u = u"
  shows "dropWhile P (rev (dropWhile P (rev u))) = rev (dropWhile P (rev u))"
proof (cases "rev (dropWhile P (rev u))")
  case Nil
  show ?thesis unfolding Nil by simp
next
  case (Cons a v)
  have "\<exists>w. u = rev (dropWhile P (rev u)) @ w"
    by (metis rev_append rev_rev_ident takeWhile_dropWhile_id)
  then obtain w where u: "u = (a # v) @ w" using Cons by metis
  then have "hd u = a" and "u \<noteq> []" by simp_all
  then have "\<not> P a" using stable
    by (metis hd_dropWhile)
  then show ?thesis unfolding Cons by simp
qed

lemma trim_idem: "trim (trim s) = trim s"
proof -
  let ?u = "dropWhile is_ws s"
  have a: "dropWhile is_ws (rev (dropWhile is_ws (rev ?u))) = rev (dropWhile is_ws (rev ?u))"
    by (rule dropWhile_rev_hd) simp
  show ?thesis
    unfolding trim_def by (simp add: a)
qed

lemma mk_num_not_NaN: "mk_num m e \<noteq> NaN"
  by (simp add: mk_num_def split: prod.splits)

lemma parse_radix_ok: "parse_radix b ds \<noteq> NaN \<longleftrightarrow> ds \<noteq> [] \<and> list_all (\<lambda>c. radix_val c < b) ds"
  by (simp add: parse_radix_def mk_num_not_NaN)

lemma parse_exponent_ok: "parse_exponent r \<noteq> None \<longleftrightarrow> exponent_ok r"
  by (auto simp: parse_exponent_def exponent_ok_def split: list.splits prod.splits)

lemma unsigned_core:
  "(let fp = (case r1 of [] \<Rightarrow> [] | c # r' \<Rightarrow> if c = CHR ''.'' then takeWhile is_digit r' else []);
        r2 = (case r1 of [] \<Rightarrow> [] | c # r' \<Rightarrow> if c = CHR ''.'' then dropWhile is_digit r' else r1)
    in if ip = [] \<and> fp = [] then None
       else (case parse_exponent r2 of
               None \<Rightarrow> None
             | Some ex \<Rightarrow> Some (int (nat_of_digits 10 (ip @ fp)), ex - int (length fp)))) \<noteq> None
   \<longleftrightarrow>
   (case r1 of
      [] \<Rightarrow> ip \<noteq> []
    | c # r' \<Rightarrow>
        if c = CHR ''.''
        then (ip \<noteq> [] \<or> takeWhile is_digit r' \<noteq> []) \<and> exponent_ok (dropWhile is_digit r')
        else ip \<noteq> [] \<and> exponent_ok r1)"
proof (cases r1)
  case Nil
  then show ?thesis by (simp add: parse_exponent_def)
next
  case (Cons c r')
  then show ?thesis
    using parse_exponent_ok[of "dropWhile is_digit r'"] parse_exponent_ok[of "c # r'"]
    by (auto simp: Let_def)
qed

lemma parse_unsigned_ok:
  "parse_unsigned_decimal (snd (split_sign t)) \<noteq> None \<longleftrightarrow> decimal_literal t"
  unfolding parse_unsigned_decimal_def decimal_literal_def Let_def
  using unsigned_core[of "dropWhile is_digit (snd (split_sign t))" "takeWhile is_digit (snd (split_sign t))", unfolded Let_def]
  by blast

lemma infinity_literal_iff: "infinity_literal t \<longleftrightarrow> snd (split_sign t) = ''Infinity''"
  by (auto simp: infinity_literal_def split_sign_def split: list.splits)

lemma parse_decimal_ok: "parse_decimal t \<noteq> NaN \<longleftrightarrow> decimal_literal t \<or> infinity_literal t"
  by (auto simp: parse_decimal_def mk_num_not_NaN infinity_literal_iff parse_unsigned_ok[symmetric]
      split: prod.splits option.splits)

lemma radix_prefix_not_decimal:
  assumes "radix_of_prefix t = Some (b, ds)"
  shows "\<not> decimal_literal t" and "\<not> infinity_literal t"
proof -
  from assms obtain c1 where t: "t = CHR ''0'' # c1 # ds"
    and c1: "c1 \<in> {CHR ''x'', CHR ''X'', CHR ''o'', CHR ''O'', CHR ''b'', CHR ''B''}"
    by (auto elim!: radix_of_prefix.elims split: if_splits)
  from c1 have nd: "\<not> is_digit c1" by (auto simp: is_digit_def)
  from c1 nd show "\<not> decimal_literal t"
    unfolding t by (auto simp: decimal_literal_def split_sign_def is_digit_def exponent_ok_def)
  show "\<not> infinity_literal t"
    unfolding t by (simp add: infinity_literal_def)
qed

lemma toNumber_trimmed:
  assumes "t = trim raw"
  shows "toNumber t \<noteq> NaN \<longleftrightarrow> t = [] \<or> decimal_literal t \<or> infinity_literal t \<or> radix_literal t"
proof -
  have tt: "trim t = t" using assms by (simp add: trim_idem)
  show ?thesis
  proof (cases "radix_of_prefix t")
    case None
    then show ?thesis
      by (auto simp: toNumber_def tt parse_decimal_ok radix_literal_def)
  next
    case (Some p)
    obtain b ds where p: "p = (b, ds)" by (cases p)
    from Some p have "t \<noteq> []" by auto
    with Some p show ?thesis
      using radix_prefix_not_decimal[of t b ds]
      by (simp add: toNumber_def tt parse_radix_ok radix_literal_def)
  qed
qed

lemma decimal_literal_nonempty: "\<not> decimal_literal []"
  by (simp add: decimal_literal_def split_sign_def)

text \<open>
  Claim C5, amended.  \<^verbatim>\<open>parseDraftValue\<close> is a total function that classifies the trimmed
  input by a fixed precedence: exactly \<^verbatim>\<open>null\<close>, \<^verbatim>\<open>true\<close> and \<^verbatim>\<open>false\<close> give the
  constants; a trimmed text that \<^verbatim>\<open>Number\<close> accepts, which is a decimal literal with an
  optional sign, fraction and exponent, a signed \<^verbatim>\<open>Infinity\<close>, or an unsigned literal with
  the prefix 0x, 0o or 0b, gives that number; every other input, the empty one included,
  gives back the raw text untrimmed.
\<close>

theorem parseDraftValue_precedence:
  "parseDraftValue raw =
     (let t = trim raw in
      if t = ''null'' then SNull
      else if t = ''true'' then SBool True
      else if t = ''false'' then SBool False
      else if decimal_literal t \<or> infinity_literal t \<or> radix_literal t then SNum (toNumber t)
      else SStr raw)
   \<and> parseDraftValue [] = SStr []
   \<and> parseDraftValue '' hello '' = SStr '' hello ''
   \<and> parseDraftValue ''42'' = SNum (Fin 42 0)
   \<and> parseDraftValue ''3.14e2'' = SNum (Fin 314 0)"
proof -
  have nonempty: "decimal_literal t \<or> infinity_literal t \<or> radix_literal t \<Longrightarrow> t \<noteq> []" for t
    using decimal_literal_nonempty by (auto simp: infinity_literal_def radix_literal_def)
  have "parseDraftValue raw =
     (let t = trim raw in
      if t = ''null'' then SNull
      else if t = ''true'' then SBool True
      else if t = ''false'' then SBool False
      else if decimal_literal t \<or> infinity_literal t \<or> radix_literal t then SNum (toNumber t)
      else SStr raw)"
    using toNumber_trimmed[of "trim raw" raw] nonempty[of "trim raw"]
    unfolding parseDraftValue_def Let_def by auto
  moreover have "parseDraftValue [] = SStr []" by code_simp
  moreover have "parseDraftValue '' hello '' = SStr '' hello ''" by code_simp
  moreover have "parseDraftValue ''42'' = SNum (Fin 42 0)" by code_simp
  moreover have "parseDraftValue ''3.14e2'' = SNum (Fin 314 0)" by code_simp
  ultimately show ?thesis by blast
qed

text \<open>The theorem at a padded decimal, a binary literal and a text that is no number.\<close>

theorem parseDraftValue_precedence_witness:
  "parseDraftValue ''  -12.50e1 '' = SNum (Fin (- 125) 0) \<and> parseDraftValue ''0b101'' = SNum (Fin 5 0)
   \<and> parseDraftValue ''1.2.3'' = SStr ''1.2.3''"
proof -
  have a: "trim ''  -12.50e1 '' = ''-12.50e1''" "decimal_literal ''-12.50e1''"
    "toNumber ''-12.50e1'' = Fin (- 125) 0" by code_simp+
  have b: "trim ''0b101'' = ''0b101''" "radix_literal ''0b101''" "toNumber ''0b101'' = Fin 5 0"
    by code_simp+
  have c: "trim ''1.2.3'' = ''1.2.3''" "\<not> decimal_literal ''1.2.3''" "\<not> infinity_literal ''1.2.3''"
    "\<not> radix_literal ''1.2.3''" by code_simp+
  show ?thesis
    using parseDraftValue_precedence[of "''  -12.50e1 ''"] parseDraftValue_precedence[of "''0b101''"]
      parseDraftValue_precedence[of "''1.2.3''"]
    by (simp add: a b c)
qed

text \<open>Claim C5 as stated (only decimal literals are numbers, every other input is returned
  raw) fails at the hexadecimal literal \<^verbatim>\<open>0x1F\<close>, which is coerced to the number 31.\<close>

theorem parseDraftValue_radix_counterexample:
  "\<not> (\<forall>raw. parseDraftValue raw =
        (let t = trim raw in
         if t = ''null'' then SNull
         else if t = ''true'' then SBool True
         else if t = ''false'' then SBool False
         else if t \<noteq> [] \<and> decimal_literal t then SNum (toNumber t)
         else SStr raw))"
proof
  assume "\<forall>raw. parseDraftValue raw =
        (let t = trim raw in
         if t = ''null'' then SNull
         else if t = ''true'' then SBool True
         else if t = ''false'' then SBool False
         else if t \<noteq> [] \<and> decimal_literal t then SNum (toNumber t)
         else SStr raw)"
  then have "parseDraftValue ''0x1F'' =
        (let t = trim ''0x1F'' in
         if t = ''null'' then SNull
         else if t = ''true'' then SBool True
         else if t = ''false'' then SBool False
         else if t \<noteq> [] \<and> decimal_literal t then SNum (toNumber t)
         else SStr ''0x1F'')" by blast
  moreover have "trim ''0x1F'' = ''0x1F''" "\<not> decimal_literal ''0x1F''" by code_simp+
  moreover have "parseDraftValue ''0x1F'' = SNum (Fin 31 0)" by code_simp
  ultimately show False by simp
qed

subsection \<open>Projection\<close>

text \<open>
  Claim C2, amended.  For a row list of exactly one row with no key (a \<^verbatim>\<open>null\<close> or empty
  key) and a scalar value, the projection displays the raw, unquoted string form of the
  value, and the field set is empty: a row without a key contributes no field.
\<close>

theorem project_single_unkeyed:
  assumes "\<not> has_key r" and "row_value r = Some v"
  shows "project [r] = (js_String v, [])"
  using assms
  by (simp add: project_def normalizeNodeData_def extractEditableFields_def template_of_def)

text \<open>The theorem at the row of the specification's example.\<close>

theorem project_single_unkeyed_witness:
  "project [\<lparr>row_key = None, row_value = Some (SStr ''x''), row_type = TString\<rparr>] = (''x'', [])"
  using project_single_unkeyed[of "\<lparr>row_key = None, row_value = Some (SStr ''x''), row_type = TString\<rparr>" "SStr ''x''"]
  by (simp add: has_key_def js_String_def)

text \<open>Claim C2 as stated fails at its own example: the field set has no synthetic entry
  under the empty key.\<close>

theorem project_synthetic_field_counterexample:
  "project [\<lparr>row_key = None, row_value = Some (SStr ''x''), row_type = TString\<rparr>]
     \<noteq> (''x'', [([], ''x'')])"
  by (simp add: project_def normalizeNodeData_def extractEditableFields_def has_key_def)

subsection \<open>Walking a path and writing a node back\<close>

lemma own_prop_simps:
  "own_prop (Obj kvs) k = map_of kvs k"
  "own_prop (Arr xs) k = arr_get xs k"
  "own_prop (Lit (SStr str)) k = str_get str k"
  "own_prop (Lit SNull) k = None"
  "own_prop (Lit (SBool b)) k = None"
  "own_prop (Lit (SNum n)) k = None"
  by (simp_all add: own_prop_def)

lemma get_prop_Some: "get_prop inh v s = Inr (Some x) \<longleftrightarrow> own_prop v (prop_key s) = Some x"
  by (auto simp: get_prop_def own_prop_simps split: option.splits)

lemma get_prop_None:
  "get_prop inh v s = Inr None \<longleftrightarrow>
     v \<noteq> Lit SNull \<and> own_prop v (prop_key s) = None \<and> \<not> inh v (prop_key s)"
  by (auto simp: get_prop_def split: option.splits)

lemma inline_walk_eq: "inline_walk inh root segs = modal_walk inh root segs"
  by (induction segs arbitrary: root) (auto split: sum.splits option.splits)

lemma modal_walk_append:
  "modal_walk inh root (xs @ ys) =
     (case modal_walk inh root xs of
        Inl stop \<Rightarrow> Inl stop
      | Inr None \<Rightarrow> Inr None
      | Inr (Some node) \<Rightarrow> modal_walk inh node ys)"
  by (induction xs arbitrary: root) (auto split: sum.splits option.splits)

lemma modal_walk_snoc:
  "modal_walk inh root (xs @ [x]) =
     (case modal_walk inh root xs of
        Inl stop \<Rightarrow> Inl stop
      | Inr None \<Rightarrow> Inr None
      | Inr (Some node) \<Rightarrow> get_prop inh node x)"
  by (simp add: modal_walk_append split: sum.splits option.splits)

lemma own_prop_Lit: "own_prop (Lit l) k = Some v \<Longrightarrow> \<exists>l'. v = Lit l'"
  by (cases l) (auto simp: own_prop_simps str_get_def split: option.splits if_splits)

lemma modal_walk_Lit: "modal_walk inh (Lit l) segs = Inr (Some v) \<Longrightarrow> \<exists>l'. v = Lit l'"
proof (induction segs arbitrary: l)
  case Nil
  then show ?case by auto
next
  case (Cons s segs)
  then show ?case
    by (auto simp: get_prop_Some split: sum.splits option.splits dest!: own_prop_Lit)
qed

lemma map_of_obj_replace:
  "map_of (obj_replace k v kvs) = (if map_of kvs k = None then map_of kvs else (map_of kvs)(k \<mapsto> v))"
  by (induction kvs) (auto simp: fun_eq_iff)

lemma map_of_obj_insert:
  "map_of kvs k = None \<Longrightarrow> map_of (obj_insert k v kvs) = (map_of kvs)(k \<mapsto> v)"
  by (induction kvs) (auto simp: fun_eq_iff split: if_splits)

lemma map_of_obj_set: "map_of (obj_set k v kvs) = (map_of kvs)(k \<mapsto> v)"
  by (auto simp: obj_set_def map_of_obj_replace map_of_obj_insert)

lemma obj_replace_same: "map_of kvs k = Some v \<Longrightarrow> obj_replace k v kvs = kvs"
  by (induction kvs) (auto split: if_splits)

lemma obj_set_same: "map_of kvs k = Some v \<Longrightarrow> obj_set k v kvs = kvs"
  by (simp add: obj_set_def obj_replace_same)

text \<open>One step of a walk through an own property.\<close>

lemma get_prop_own: "own_prop v (prop_key s) = Some x \<Longrightarrow> get_prop inh v s = Inr (Some x)"
  by (simp add: get_prop_Some)

lemma modal_walk_own:
  "own_prop root (prop_key s) = Some child \<Longrightarrow>
   modal_walk inh root (s # segs) = modal_walk inh child segs"
  by (simp add: get_prop_own)

lemma modal_walk_Cons_Some:
  "modal_walk inh root (s # segs) = Inr (Some node) \<longleftrightarrow>
     (\<exists>child. own_prop root (prop_key s) = Some child \<and> modal_walk inh child segs = Inr (Some node))"
proof (cases "get_prop inh root s")
  case (Inl a)
  have "\<And>x. own_prop root (prop_key s) \<noteq> Some x"
    using Inl get_prop_own[of root s _ inh] by fastforce
  with Inl show ?thesis by simp
next
  case (Inr r)
  show ?thesis
  proof (cases r)
    case None
    have "\<And>x. own_prop root (prop_key s) \<noteq> Some x"
      using Inr None get_prop_own[of root s _ inh] by fastforce
    with Inr None show ?thesis by simp
  next
    case (Some a)
    have "own_prop root (prop_key s) = Some a"
      using Inr Some get_prop_Some[of inh root s a] by simp
    with Inr Some show ?thesis by simp
  qed
qed

lemma put_back_same:
  "modal_walk inh root path = Inr (Some node) \<Longrightarrow> put_back root path node = root"
proof (induction path arbitrary: root)
  case Nil
  then show ?case by simp
next
  case (Cons s segs)
  from Cons.prems obtain child where child: "own_prop root (prop_key s) = Some child"
    and rest: "modal_walk inh child segs = Inr (Some node)"
    unfolding modal_walk_Cons_Some by blast
  note IH = Cons.IH[OF rest]
  show ?case
  proof (cases root)
    case (Lit l)
    then show ?thesis by simp
  next
    case (Arr xs)
    with child IH show ?thesis
      by (auto simp: own_prop_simps arr_get_def split: option.splits if_splits)
  next
    case (Obj kvs)
    with child IH show ?thesis
      by (auto simp: own_prop_simps obj_replace_same split: option.splits)
  qed
qed

lemma walk_put_back:
  "modal_walk inh root pre = Inr (Some node) \<Longrightarrow> (\<forall>l. node \<noteq> Lit l) \<Longrightarrow>
   modal_walk inh (put_back root pre new) pre = Inr (Some new)"
proof (induction pre arbitrary: root)
  case Nil
  then show ?case by simp
next
  case (Cons s segs)
  from Cons.prems(1) obtain child where child: "own_prop root (prop_key s) = Some child"
    and rest: "modal_walk inh child segs = Inr (Some node)"
    unfolding modal_walk_Cons_Some by blast
  note IH = Cons.IH[OF rest Cons.prems(2)]
  show ?case
  proof (cases root)
    case (Lit l)
    with child obtain l' where "child = Lit l'" by (auto dest: own_prop_Lit)
    with rest Cons.prems(2) show ?thesis
      using modal_walk_Lit[of inh l' segs node] by auto
  next
    case (Arr xs)
    show ?thesis
    proof (cases "index_of_key (prop_key s)")
      case None
      with child Arr obtain l' where "child = Lit l'"
        by (auto simp: own_prop_simps arr_get_def split: if_splits)
      with rest Cons.prems(2) show ?thesis
        using modal_walk_Lit[of inh l' segs node] by auto
    next
      case (Some i)
      with child Arr have i: "i < length xs" "child = xs ! i"
        by (auto simp: own_prop_simps arr_get_def split: if_splits)
      have "own_prop (put_back root (s # segs) new) (prop_key s) = Some (put_back child segs new)"
        using Arr Some i by (simp add: own_prop_simps arr_get_def)
      from modal_walk_own[OF this] IH show ?thesis by simp
    qed
  next
    case (Obj kvs)
    have "own_prop (put_back root (s # segs) new) (prop_key s) = Some (put_back child segs new)"
      using Obj child by (simp add: own_prop_simps map_of_obj_replace)
    from modal_walk_own[OF this] IH show ?thesis by simp
  qed
qed

subsection \<open>Invalid paths\<close>




subsection \<open>The empty document text\<close>

lemma get_prop_error: "get_prop inh v s = Inl (Threw err) \<Longrightarrow> err = TypeError"
  by (auto simp: get_prop_def split: if_splits option.splits)

lemma modal_walk_error: "modal_walk inh v segs = Inl (Threw err) \<Longrightarrow> err = TypeError"
  by (induction segs arbitrary: v) (auto split: sum.splits option.splits dest: get_prop_error)

lemma set_prop_error: "set_prop inh v s x = Inl (Threw err) \<Longrightarrow> err \<noteq> SyntaxError"
  by (cases v)
    (auto simp: set_prop_def arr_set_def set_length_def Let_def
      split: option.splits if_splits jsnum.splits)

lemma set_field_error: "set_field inh v k x = Inl (Threw err) \<Longrightarrow> err \<noteq> SyntaxError"
  by (cases v) (auto simp: set_field_def dest: set_prop_error)

lemma assign_fields_error: "assign_fields inh v flds = Inl (Threw err) \<Longrightarrow> err \<noteq> SyntaxError"
  by (induction inh v flds rule: assign_fields.induct) (auto split: sum.splits dest: set_field_error)

lemma map_sum_Some_Inl: "map_sum id Some x = Inl err \<longleftrightarrow> x = Inl err"
  by (cases x) auto

lemma modal_commit_error: "modal_commit inh root path flds = Inl (Threw err) \<Longrightarrow> err \<noteq> SyntaxError"
  unfolding modal_commit_def
  by (auto simp: map_sum_Some_Inl split: if_splits sum.splits option.splits json.splits scalar.splits
      dest: modal_walk_error get_prop_error set_prop_error assign_fields_error)

lemma inline_commit_error: "inline_commit inh root path draft = Inl (Threw err) \<Longrightarrow> err \<noteq> SyntaxError"
  unfolding inline_commit_def inline_walk_eq
  by (auto split: sum.splits option.splits dest: modal_walk_error set_prop_error)

text \<open>
  Claim C10.  When the document text store holds the empty string, the root is the empty
  object without any call of the parser: both handlers run their resolution and mutation
  on \<open>Obj []\<close>, and neither ends in a caught \<^verbatim>\<open>SyntaxError\<close>.
\<close>

theorem empty_store_commits_on_empty_object:
  assumes empty: "json_store st = []"
  shows "read_root JSON_parse st = Inr (Obj [])
    \<and> NodeModal_handleSave inh JSON_parse (Some nd) flds st =
        (case modal_commit inh (Obj []) (case node_path nd of None \<Rightarrow> [] | Some p \<Rightarrow> p) flds of
           Inl (Threw err) \<Rightarrow> Some (Caught err, st\<lparr>isEditing := False\<rparr>)
         | Inl Inherited \<Rightarrow> None
         | Inr None \<Rightarrow> Some (InvalidPath, st\<lparr>isEditing := False\<rparr>)
         | Inr (Some root') \<Rightarrow>
             Some (Published, st\<lparr>json_store := stringify root', file_contents := stringify root',
                                  isEditing := False\<rparr>))
    \<and> map_option fst (NodeModal_handleSave inh JSON_parse (Some nd) flds st)
        \<noteq> Some (Caught SyntaxError)
    \<and> TextNode_handleSave inh JSON_parse val draft (Some path) st =
        (if value_text val = draft then Some (NoChange, st\<lparr>isEditing := False\<rparr>)
         else if path = [] then Some (NoPath, st\<lparr>isEditing := False\<rparr>)
         else (case inline_commit inh (Obj []) path draft of
                 Inl (Threw err) \<Rightarrow> Some (Caught err, st\<lparr>isEditing := False\<rparr>)
               | Inl Inherited \<Rightarrow> None
               | Inr None \<Rightarrow> Some (InvalidPath, st\<lparr>isEditing := False\<rparr>)
               | Inr (Some parsed') \<Rightarrow>
                   Some (Published, st\<lparr>json_store := stringify parsed', isEditing := False\<rparr>)))
    \<and> map_option fst (TextNode_handleSave inh JSON_parse val draft (Some path) st)
        \<noteq> Some (Caught SyntaxError)"
proof -
  have r: "read_root JSON_parse st = Inr (Obj [])"
    by (simp add: read_root_def getJson_def empty)
  have a: "NodeModal_handleSave inh JSON_parse (Some nd) flds st =
        (case modal_commit inh (Obj []) (case node_path nd of None \<Rightarrow> [] | Some p \<Rightarrow> p) flds of
           Inl (Threw err) \<Rightarrow> Some (Caught err, st\<lparr>isEditing := False\<rparr>)
         | Inl Inherited \<Rightarrow> None
         | Inr None \<Rightarrow> Some (InvalidPath, st\<lparr>isEditing := False\<rparr>)
         | Inr (Some root') \<Rightarrow>
             Some (Published, st\<lparr>json_store := stringify root', file_contents := stringify root',
                                  isEditing := False\<rparr>))"
    by (simp add: NodeModal_handleSave_def r setIsEditing_def setJson_def setContents_def Let_def
        split: sum.splits option.splits stop.splits)
  have a': "map_option fst (NodeModal_handleSave inh JSON_parse (Some nd) flds st)
        \<noteq> Some (Caught SyntaxError)"
    unfolding a by (auto split: sum.splits option.splits stop.splits dest: modal_commit_error)
  have b: "TextNode_handleSave inh JSON_parse val draft (Some path) st =
        (if value_text val = draft then Some (NoChange, st\<lparr>isEditing := False\<rparr>)
         else if path = [] then Some (NoPath, st\<lparr>isEditing := False\<rparr>)
         else (case inline_commit inh (Obj []) path draft of
                 Inl (Threw err) \<Rightarrow> Some (Caught err, st\<lparr>isEditing := False\<rparr>)
               | Inl Inherited \<Rightarrow> None
               | Inr None \<Rightarrow> Some (InvalidPath, st\<lparr>isEditing := False\<rparr>)
               | Inr (Some parsed') \<Rightarrow>
                   Some (Published, st\<lparr>json_store := stringify parsed', isEditing := False\<rparr>)))"
    by (simp add: TextNode_handleSave_def r setIsEditing_def setJson_def
        split: sum.splits option.splits stop.splits)
  have b': "map_option fst (TextNode_handleSave inh JSON_parse val draft (Some path) st)
        \<noteq> Some (Caught SyntaxError)"
    unfolding b by (auto split: sum.splits option.splits stop.splits dest: inline_commit_error)
  from r a a' b b' show ?thesis by blast
qed

lemma commit_samples:
  "modal_commit sample_proto (Obj []) [Key ''a''] [(''k'', ''1'')]
     = Inr (Some (Obj [(''a'', Lit (SNum (Fin 1 0)))]))"
  "inline_commit sample_proto (Obj []) [Key ''a''] ''true''
     = Inr (Some (Obj [(''a'', Lit (SBool True))]))"
  by code_simp+

text \<open>The theorem with a parser that rejects every text: a one-segment path creates the
  key in the empty object.\<close>

theorem empty_store_commits_on_empty_object_witness:
  "NodeModal_handleSave sample_proto (\<lambda>t. None)
     (Some \<lparr>node_text = [], node_path = Some [Key ''a'']\<rparr>)
     [(''k'', ''1'')] \<lparr>json_store = [], file_contents = [], isEditing = True\<rparr>
   = Some (Published,
      \<lparr>json_store = stringify (Obj [(''a'', Lit (SNum (Fin 1 0)))]),
       file_contents = stringify (Obj [(''a'', Lit (SNum (Fin 1 0)))]), isEditing = False\<rparr>)
   \<and> TextNode_handleSave sample_proto (\<lambda>t. None) None ''true'' (Some [Key ''a''])
     \<lparr>json_store = [], file_contents = [], isEditing = True\<rparr>
   = Some (Published,
      \<lparr>json_store = stringify (Obj [(''a'', Lit (SBool True))]), file_contents = [],
       isEditing = False\<rparr>)"
proof -
  let ?st = "\<lparr>json_store = [], file_contents = [], isEditing = True\<rparr>"
  have e: "json_store ?st = []" by simp
  show ?thesis
    using empty_store_commits_on_empty_object[OF e, of "\<lambda>t. None" sample_proto
        "\<lparr>node_text = [], node_path = Some [Key ''a'']\<rparr>" "[(''k'', ''1'')]" None "''true''" "[Key ''a'']"]
    by (simp add: commit_samples value_text_def)
qed

subsection \<open>Where the handlers fall short\<close>

text \<open>
  Claim C3 at the inline editor.  After a successful save of \<^verbatim>\<open>false\<close> over the flag of
  \<^verbatim>\<open>{"flag": true}\<close> the document text store holds the new text while the raw content
  buffer still holds the old one: the inline editor calls \<^verbatim>\<open>setJson\<close> only, where the
  detail editor calls \<^verbatim>\<open>setJson\<close> and \<^verbatim>\<open>setContents\<close>.
\<close>

theorem inline_save_leaves_buffer_stale:
  "TextNode_handleSave sample_proto
     (\<lambda>t. if t = stringify (Obj [(''flag'', Lit (SBool True))])
          then Some (Obj [(''flag'', Lit (SBool True))]) else None)
     (Some (SBool True)) ''false'' (Some [Key ''flag''])
     \<lparr>json_store = stringify (Obj [(''flag'', Lit (SBool True))]),
      file_contents = stringify (Obj [(''flag'', Lit (SBool True))]),
      isEditing = True\<rparr>
   = Some (Published,
      \<lparr>json_store = stringify (Obj [(''flag'', Lit (SBool False))]),
       file_contents = stringify (Obj [(''flag'', Lit (SBool True))]),
       isEditing = False\<rparr>)
   \<and> stringify (Obj [(''flag'', Lit (SBool False))]) \<noteq> stringify (Obj [(''flag'', Lit (SBool True))])"
  by code_simp

text \<open>
  Claim C1 at the empty path.  The detail editor, saving the draft \<^verbatim>\<open>5\<close> over the root
  \<^verbatim>\<open>[1,2,3]\<close>, publishes the old root again: the coerced value is stored in the local
  variable \<^verbatim>\<open>nodeTarget\<close> and \<^verbatim>\<open>root\<close> is serialised.  The inline editor returns before it
  reads the document.
\<close>

theorem root_replace_is_dropped:
  "NodeModal_handleSave sample_proto
     (\<lambda>t. if t = ''[1,2,3]''
          then Some (Arr [Lit (SNum (Fin 1 0)), Lit (SNum (Fin 2 0)), Lit (SNum (Fin 3 0))]) else None)
     (Some \<lparr>node_text = [], node_path = Some []\<rparr>) [(''v'', ''5'')]
     \<lparr>json_store = ''[1,2,3]'', file_contents = ''[1,2,3]'', isEditing = True\<rparr>
   = Some (Published,
      \<lparr>json_store = stringify (Arr [Lit (SNum (Fin 1 0)), Lit (SNum (Fin 2 0)), Lit (SNum (Fin 3 0))]),
       file_contents = stringify (Arr [Lit (SNum (Fin 1 0)), Lit (SNum (Fin 2 0)), Lit (SNum (Fin 3 0))]),
       isEditing = False\<rparr>)
   \<and> stringify (Arr [Lit (SNum (Fin 1 0)), Lit (SNum (Fin 2 0)), Lit (SNum (Fin 3 0))])
       \<noteq> stringify (Lit (parseDraftValue ''5''))
   \<and> TextNode_handleSave sample_proto
     (\<lambda>t. if t = ''7'' then Some (Lit (SNum (Fin 7 0))) else None)
     (Some (SNum (Fin 7 0))) ''5'' (Some [])
     \<lparr>json_store = ''7'', file_contents = ''7'', isEditing = True\<rparr>
   = Some (NoPath, \<lparr>json_store = ''7'', file_contents = ''7'', isEditing = False\<rparr>)"
  by code_simp

subsection \<open>Assignments and field maps\<close>

lemma put_back_append:
  "modal_walk inh root pre = Inr (Some node) \<Longrightarrow>
   put_back root (pre @ ys) new = put_back root pre (put_back node ys new)"
proof (induction pre arbitrary: root)
  case Nil
  then show ?case by simp
next
  case (Cons s segs)
  from Cons.prems obtain child where child: "own_prop root (prop_key s) = Some child"
    and rest: "modal_walk inh child segs = Inr (Some node)"
    unfolding modal_walk_Cons_Some by blast
  note IH = Cons.IH[OF rest]
  show ?case
  proof (cases root)
    case (Lit l)
    then show ?thesis by simp
  next
    case (Arr xs)
    with child IH show ?thesis
      by (auto simp: own_prop_simps arr_get_def split: option.splits if_splits)
  next
    case (Obj kvs)
    with child IH show ?thesis
      by (auto simp: own_prop_simps split: option.splits)
  qed
qed

lemma set_prop_container: "set_prop inh parent s v = Inr parent' \<Longrightarrow> \<forall>l. parent \<noteq> Lit l"
  by (cases parent) (auto simp: set_prop_def split: if_splits)

lemma index_set_get:
  "index_of_key k = Some i \<Longrightarrow>
   arr_get (if i < length xs then xs[i := v] else xs @ replicate (i - length xs) d @ [v]) k = Some v"
  by (auto simp: arr_get_def nth_append)

text \<open>Writing a scalar into an object, or into an array at an index, and reading it back;
  the key is an own property or is not inherited.\<close>

lemma set_then_get:
  assumes shape: "parent = Obj kvs \<or> (parent = Arr xs \<and> index_of_key (prop_key s) \<noteq> None)"
    and free: "own_prop parent (prop_key s) \<noteq> None \<or> \<not> inh parent (prop_key s)"
  shows "\<exists>parent'. set_prop inh parent s v = Inr parent' \<and> get_prop inh parent' s = Inr (Some (Lit v))"
proof -
  from shape consider (obj) "parent = Obj kvs"
    | (arr) i where "parent = Arr xs" "index_of_key (prop_key s) = Some i"
    by auto
  then show ?thesis
  proof cases
    case obj
    with free have "set_prop inh parent s v = Inr (Obj (obj_set (prop_key s) (Lit v) kvs))"
      by (auto simp: set_prop_def)
    moreover have "get_prop inh (Obj (obj_set (prop_key s) (Lit v) kvs)) s = Inr (Some (Lit v))"
      by (rule get_prop_own) (simp add: own_prop_simps map_of_obj_set)
    ultimately show ?thesis by simp
  next
    case arr
    let ?xs' = "if i < length xs then xs[i := Lit v]
                else xs @ replicate (i - length xs) (Lit SNull) @ [Lit v]"
    from arr free have "set_prop inh parent s v = Inr (Arr ?xs')"
      by (auto simp: set_prop_def arr_set_def)
    moreover have "get_prop inh (Arr ?xs') s = Inr (Some (Lit v))"
      by (rule get_prop_own) (simp only: own_prop_simps index_set_get[OF arr(2)])
    ultimately show ?thesis by simp
  qed
qed

text \<open>Overwriting a slot that holds a value is the same as writing that slot back.\<close>

lemma set_existing:
  assumes "get_prop inh parent s = Inr (Some (Lit SNull))"
  shows "set_prop inh parent s v = Inr (put_back parent [s] (Lit v))"
proof -
  from assms have own: "own_prop parent (prop_key s) = Some (Lit SNull)"
    by (simp add: get_prop_Some)
  show ?thesis
  proof (cases parent)
    case (Lit l)
    with own show ?thesis
      by (cases l) (auto simp: own_prop_simps str_get_def split: option.splits if_splits)
  next
    case (Arr xs)
    with own show ?thesis
      by (auto simp: set_prop_def own_prop_simps arr_get_def arr_set_def split: option.splits if_splits)
  next
    case (Obj kvs)
    with own show ?thesis
      by (auto simp: set_prop_def own_prop_simps obj_set_def)
  qed
qed

lemma assign_fields_Obj:
  "assign_fields inh (Obj kvs) flds =
     Inr (Obj (foldl (\<lambda>acc kr. obj_set (fst kr) (Lit (parseDraftValue (snd kr))) acc) kvs flds))"
  by (induction flds arbitrary: kvs) (auto simp: set_field_def)

lemma map_of_foldl_obj_set:
  "map_of (foldl (\<lambda>acc kr. obj_set (fst kr) (f (snd kr)) acc) kvs flds) =
     map_of kvs ++ map_of (rev (map (\<lambda>kr. (fst kr, f (snd kr))) flds))"
  by (induction flds arbitrary: kvs) (auto simp: map_of_obj_set fun_eq_iff map_add_def split: option.splits)

lemma map_of_rev_distinct:
  "distinct (map fst ps) \<Longrightarrow> map_of (rev ps) = map_of ps"
  by (rule map_of_inject_set[THEN iffD2]) (auto simp: rev_map[symmetric])

lemma fields_written:
  assumes "distinct (map fst flds)" and "(k, raw) \<in> set flds"
  shows "(map_of kvs ++ map_of (rev (map (\<lambda>kr. (fst kr, f (snd kr))) flds))) k = Some (f raw)"
proof -
  let ?ps = "map (\<lambda>kr. (fst kr, f (snd kr))) flds"
  have d: "distinct (map fst ?ps)" using assms(1) by (simp add: comp_def)
  have "(k, f raw) \<in> set ?ps" using assms(2) by force
  then have "map_of ?ps k = Some (f raw)" using d by simp
  then show ?thesis by (simp add: map_of_rev_distinct[OF d])
qed

lemma fields_untouched:
  assumes "k \<notin> fst ` set flds"
  shows "(map_of kvs ++ map_of (rev (map (\<lambda>kr. (fst kr, f (snd kr))) flds))) k = map_of kvs k"
proof -
  have "map_of (rev (map (\<lambda>kr. (fst kr, f (snd kr))) flds)) k = None"
    using assms by (auto simp: map_of_eq_None_iff image_iff)
  then show ?thesis by (simp add: map_add_def)
qed

subsection \<open>Scalar replacement\<close>

lemma get_after_overwrite:
  assumes "get_prop inh parent s = Inr (Some (Lit SNull))"
  shows "get_prop inh (put_back parent [s] new) s = Inr (Some new)"
proof -
  from assms have own: "own_prop parent (prop_key s) = Some (Lit SNull)"
    by (simp add: get_prop_Some)
  have "own_prop (put_back parent [s] new) (prop_key s) = Some new"
  proof (cases parent)
    case (Lit l)
    with own show ?thesis
      by (cases l) (auto simp: own_prop_simps str_get_def split: option.splits if_splits)
  next
    case (Arr xs)
    with own show ?thesis
      by (auto simp: own_prop_simps arr_get_def split: option.splits if_splits)
  next
    case (Obj kvs)
    with own show ?thesis
      by (auto simp: own_prop_simps map_of_obj_replace)
  qed
  then show ?thesis by (rule get_prop_own)
qed

lemma value_at_snoc:
  "value_at inh root (pre @ [s]) = Inr (Some v) \<longleftrightarrow>
     (\<exists>parent. value_at inh root pre = Inr (Some parent) \<and> get_prop inh parent s = Inr (Some v))"
  by (auto simp: value_at_def modal_walk_snoc split: sum.splits option.splits)

text \<open>The root after an assignment to a slot of the node at \<open>pre\<close>.\<close>

lemma value_at_written:
  assumes parent: "value_at inh root pre = Inr (Some parent)"
    and set: "set_prop inh parent s v = Inr parent'"
    and get: "get_prop inh parent' s = Inr (Some (Lit v))"
  shows "value_at inh (put_back root pre parent') (pre @ [s]) = Inr (Some (Lit v))"
proof -
  have "modal_walk inh (put_back root pre parent') pre = Inr (Some parent')"
    using walk_put_back[of inh root pre parent parent'] parent set_prop_container[OF set]
    by (simp add: value_at_def)
  then show ?thesis
    by (simp add: value_at_def modal_walk_snoc get)
qed

lemma NodeModal_publishes:
  assumes "read_root JSON_parse st = Inr root"
    and "modal_commit inh root (case node_path nd of None \<Rightarrow> [] | Some p \<Rightarrow> p) flds = Inr (Some root')"
  shows "NodeModal_handleSave inh JSON_parse (Some nd) flds st =
      Some (Published,
       st\<lparr>json_store := stringify root', file_contents := stringify root', isEditing := False\<rparr>)"
  using assms
  by (simp add: NodeModal_handleSave_def setIsEditing_def setJson_def setContents_def Let_def)

lemma TextNode_publishes:
  assumes "read_root JSON_parse st = Inr root"
    and "value_text val \<noteq> draft" and "path \<noteq> []"
    and "inline_commit inh root path draft = Inr (Some root')"
  shows "TextNode_handleSave inh JSON_parse val draft (Some path) st =
      Some (Published, st\<lparr>json_store := stringify root', isEditing := False\<rparr>)"
  using assms
  by (simp add: TextNode_handleSave_def setIsEditing_def setJson_def)

text \<open>
  Claim C9.  For every non-empty path that resolves to \<^verbatim>\<open>null\<close>, the detail editor takes the
  scalar branch: it publishes, to both stores, the root in which the slot as a whole holds
  the coerced first field value (the coerced empty string when there is no field); the
  slot then reads back as that scalar, so no field key was written into it.
\<close>

theorem null_target_is_replaced:
  assumes root: "read_root JSON_parse st = Inr root"
    and nd: "node_path nd = Some path"
    and ne: "path \<noteq> []"
    and null: "value_at inh root path = Inr (Some (Lit SNull))"
  shows "NodeModal_handleSave inh JSON_parse (Some nd) flds st =
      Some (Published,
       st\<lparr>json_store := stringify (put_back root path (Lit (parseDraftValue (firstFieldValue flds)))),
          file_contents := stringify (put_back root path (Lit (parseDraftValue (firstFieldValue flds)))),
          isEditing := False\<rparr>)
    \<and> value_at inh (put_back root path (Lit (parseDraftValue (firstFieldValue flds)))) path =
        Inr (Some (Lit (parseDraftValue (firstFieldValue flds))))"
proof -
  let ?v = "parseDraftValue (firstFieldValue flds)"
  let ?pre = "butlast path" and ?s = "last path"
  have path: "path = ?pre @ [?s]" using ne by simp
  from null obtain parent where parent: "value_at inh root ?pre = Inr (Some parent)"
    and slot: "get_prop inh parent ?s = Inr (Some (Lit SNull))"
    using value_at_snoc[of inh root ?pre ?s "Lit SNull"] path by auto
  have set: "set_prop inh parent ?s ?v = Inr (put_back parent [?s] (Lit ?v))"
    by (rule set_existing[OF slot])
  have whole: "put_back root ?pre (put_back parent [?s] (Lit ?v)) = put_back root path (Lit ?v)"
    using put_back_append[of inh root ?pre parent "[?s]" "Lit ?v"] parent path
    by (simp add: value_at_def)
  have "modal_commit inh root path flds = Inr (Some (put_back root path (Lit ?v)))"
    using parent slot set whole ne by (simp add: modal_commit_def value_at_def)
  with root nd have a: "NodeModal_handleSave inh JSON_parse (Some nd) flds st =
      Some (Published,
       st\<lparr>json_store := stringify (put_back root path (Lit ?v)),
          file_contents := stringify (put_back root path (Lit ?v)),
          isEditing := False\<rparr>)"
    by (simp add: NodeModal_publishes)
  have "value_at inh (put_back root ?pre (put_back parent [?s] (Lit ?v))) (?pre @ [?s]) = Inr (Some (Lit ?v))"
    by (rule value_at_written[OF parent set get_after_overwrite[OF slot]])
  then have b: "value_at inh (put_back root path (Lit ?v)) path = Inr (Some (Lit ?v))"
    using whole path by simp
  from a b show ?thesis by blast
qed

text \<open>
  The theorem at \<^verbatim>\<open>{"a": null, "b": true}\<close>, path \<^verbatim>\<open>["a"]\<close> and the fields
  \<^verbatim>\<open>{"k": "7", "j": "8"}\<close>.
\<close>

theorem null_target_is_replaced_witness:
  "NodeModal_handleSave sample_proto
     (\<lambda>t. if t = ''T'' then Some (Obj [(''a'', Lit SNull), (''b'', Lit (SBool True))]) else None)
     (Some \<lparr>node_text = [], node_path = Some [Key ''a'']\<rparr>) [(''k'', ''7''), (''j'', ''8'')]
     \<lparr>json_store = ''T'', file_contents = ''T'', isEditing = True\<rparr>
   = Some (Published,
      \<lparr>json_store = stringify (Obj [(''a'', Lit (SNum (Fin 7 0))), (''b'', Lit (SBool True))]),
       file_contents = stringify (Obj [(''a'', Lit (SNum (Fin 7 0))), (''b'', Lit (SBool True))]),
       isEditing = False\<rparr>)"
proof -
  let ?root = "Obj [(''a'', Lit SNull), (''b'', Lit (SBool True))]"
  let ?P = "\<lambda>t. if t = ''T'' then Some ?root else None"
  let ?st = "\<lparr>json_store = ''T'', file_contents = ''T'', isEditing = True\<rparr>"
  let ?nd = "\<lparr>node_text = [], node_path = Some [Key ''a'']\<rparr>"
  have r: "read_root ?P ?st = Inr ?root" by (simp add: read_root_def getJson_def)
  have nd: "node_path ?nd = Some [Key ''a'']" by simp
  have ne: "[Key ''a''] \<noteq> []" by simp
  have null: "value_at sample_proto ?root [Key ''a''] = Inr (Some (Lit SNull))"
    by (simp add: value_at_def get_prop_def own_prop_def prop_key_def)
  have v: "parseDraftValue (firstFieldValue [(''k'', ''7''), (''j'', ''8'')]) = SNum (Fin 7 0)"
    by code_simp
  show ?thesis
    using null_target_is_replaced[OF r nd ne null, of "[(''k'', ''7''), (''j'', ''8'')]"]
    by (simp add: v prop_key_def)
qed

text \<open>
  Claim C8, amended.  For a non-empty path whose segments before the last resolve to a
  parent that is a plain object, or an array when the last segment is an array index, and
  whose last segment reads as \<^verbatim>\<open>undefined\<close> on that parent, being absent from the parent
  and from its prototype chain (which excludes \<^verbatim>\<open>__proto__\<close>, \<^verbatim>\<open>toString\<close> and the other
  inherited members): the detail editor, and the inline editor when its draft differs
  from the displayed value, publish the root in which the parent has received the
  assignment; the new slot reads back as the coerced value.
\<close>

theorem missing_final_slot_is_created:
  assumes root: "read_root JSON_parse st = Inr root"
    and nd: "node_path nd = Some (pre @ [s])"
    and parent: "value_at inh root pre = Inr (Some parent)"
    and shape: "parent = Obj kvs \<or> (parent = Arr xs \<and> index_of_key (prop_key s) \<noteq> None)"
    and absent: "get_prop inh parent s = Inr None"
    and changed: "value_text val \<noteq> draft"
  shows "\<exists>parent1 parent2.
      set_prop inh parent s (parseDraftValue (firstFieldValue flds)) = Inr parent1
    \<and> NodeModal_handleSave inh JSON_parse (Some nd) flds st =
        Some (Published,
         st\<lparr>json_store := stringify (put_back root pre parent1),
            file_contents := stringify (put_back root pre parent1), isEditing := False\<rparr>)
    \<and> value_at inh (put_back root pre parent1) (pre @ [s]) =
        Inr (Some (Lit (parseDraftValue (firstFieldValue flds))))
    \<and> set_prop inh parent s (parseDraftValue draft) = Inr parent2
    \<and> TextNode_handleSave inh JSON_parse val draft (Some (pre @ [s])) st =
        Some (Published, st\<lparr>json_store := stringify (put_back root pre parent2), isEditing := False\<rparr>)
    \<and> value_at inh (put_back root pre parent2) (pre @ [s]) = Inr (Some (Lit (parseDraftValue draft)))"
proof -
  let ?v1 = "parseDraftValue (firstFieldValue flds)" and ?v2 = "parseDraftValue draft"
  from absent have free: "own_prop parent (prop_key s) \<noteq> None \<or> \<not> inh parent (prop_key s)"
    by (simp add: get_prop_None)
  from set_then_get[where inh = inh and v = ?v1, OF shape free] obtain parent1
    where s1: "set_prop inh parent s ?v1 = Inr parent1"
      and g1: "get_prop inh parent1 s = Inr (Some (Lit ?v1))"
    by blast
  from set_then_get[where inh = inh and v = ?v2, OF shape free] obtain parent2
    where s2: "set_prop inh parent s ?v2 = Inr parent2"
      and g2: "get_prop inh parent2 s = Inr (Some (Lit ?v2))"
    by blast
  have w: "modal_walk inh root pre = Inr (Some parent)"
    using parent by (simp add: value_at_def)
  have "modal_commit inh root (pre @ [s]) flds = Inr (Some (put_back root pre parent1))"
    using w absent s1 by (simp add: modal_commit_def)
  then have a: "NodeModal_handleSave inh JSON_parse (Some nd) flds st =
        Some (Published,
         st\<lparr>json_store := stringify (put_back root pre parent1),
            file_contents := stringify (put_back root pre parent1), isEditing := False\<rparr>)"
    using root nd by (simp add: NodeModal_publishes)
  have "inline_commit inh root (pre @ [s]) draft = Inr (Some (put_back root pre parent2))"
    using w s2 by (simp add: inline_commit_def inline_walk_eq)
  then have b: "TextNode_handleSave inh JSON_parse val draft (Some (pre @ [s])) st =
        Some (Published, st\<lparr>json_store := stringify (put_back root pre parent2), isEditing := False\<rparr>)"
    using root changed by (simp add: TextNode_publishes)
  note v1 = value_at_written[OF parent s1 g1] and v2 = value_at_written[OF parent s2 g2]
  from s1 a v1 s2 b v2 show ?thesis by blast
qed

text \<open>
  The theorem at \<^verbatim>\<open>{"a": {}}\<close> and the path \<^verbatim>\<open>["a","b"]\<close>, in a runtime where every object
  inherits the members of \<^verbatim>\<open>Object.prototype\<close>.
\<close>

theorem missing_final_slot_is_created_witness:
  "NodeModal_handleSave sample_proto (\<lambda>t. if t = ''T'' then Some (Obj [(''a'', Obj [])]) else None)
        (Some \<lparr>node_text = [], node_path = Some [Key ''a'', Key ''b'']\<rparr>) [(''k'', ''7'')]
        \<lparr>json_store = ''T'', file_contents = ''T'', isEditing = True\<rparr>
      = Some (Published,
         \<lparr>json_store = stringify (Obj [(''a'', Obj [(''b'', Lit (SNum (Fin 7 0)))])]),
          file_contents = stringify (Obj [(''a'', Obj [(''b'', Lit (SNum (Fin 7 0)))])]),
          isEditing = False\<rparr>)
    \<and> TextNode_handleSave sample_proto (\<lambda>t. if t = ''T'' then Some (Obj [(''a'', Obj [])]) else None)
        None ''true'' (Some [Key ''a'', Key ''b''])
        \<lparr>json_store = ''T'', file_contents = ''T'', isEditing = True\<rparr>
      = Some (Published,
         \<lparr>json_store = stringify (Obj [(''a'', Obj [(''b'', Lit (SBool True))])]),
          file_contents = ''T'', isEditing = False\<rparr>)"
proof -
  let ?root = "Obj [(''a'', Obj [])]"
  let ?P = "\<lambda>t. if t = ''T'' then Some ?root else None"
  let ?st = "\<lparr>json_store = ''T'', file_contents = ''T'', isEditing = True\<rparr>"
  let ?nd = "\<lparr>node_text = [], node_path = Some [Key ''a'', Key ''b'']\<rparr>"
  have r: "read_root ?P ?st = Inr ?root" by (simp add: read_root_def getJson_def)
  have nd: "node_path ?nd = Some ([Key ''a''] @ [Key ''b''])" by simp
  have parent: "value_at sample_proto ?root [Key ''a''] = Inr (Some (Obj []))"
    by (simp add: value_at_def get_prop_def own_prop_def prop_key_def)
  have shape: "Obj [] = Obj [] \<or> (Obj [] = Arr [] \<and> index_of_key (prop_key (Key ''b'')) \<noteq> None)"
    by simp
  have absent: "get_prop sample_proto (Obj []) (Key ''b'') = Inr None"
    by (simp add: get_prop_def own_prop_def prop_key_def sample_proto_def object_members_def)
  have changed: "value_text None \<noteq> ''true''" by (simp add: value_text_def)
  have v: "parseDraftValue (firstFieldValue [(''k'', ''7'')]) = SNum (Fin 7 0)"
    "parseDraftValue ''true'' = SBool True" by code_simp+
  have sets: "set_prop sample_proto (Obj []) (Key ''b'') x = Inr p \<longleftrightarrow> p = Obj [(''b'', Lit x)]" for x p
    by (auto simp: set_prop_def own_prop_def obj_set_def prop_key_def sample_proto_def object_members_def)
  from missing_final_slot_is_created[OF r nd parent shape absent changed, of "[(''k'', ''7'')]"]
  show ?thesis
    unfolding v sets by (auto simp: prop_key_def)
qed

text \<open>
  Claim C8 as stated fails where the parent is defined but is no container.  With
  \<^verbatim>\<open>{"a": null}\<close> and the path \<^verbatim>\<open>["a","b"]\<close> the only intermediate segment resolves to
  \<^verbatim>\<open>null\<close>, which is not \<^verbatim>\<open>undefined\<close>; both handlers end in a caught TypeError and
  publish nothing.  With \<^verbatim>\<open>{"a": 5}\<close> the segment \<^verbatim>\<open>b\<close> is absent from the parent 5 and the
  strict-mode assignment throws.
\<close>

theorem missing_final_slot_counterexample:
  "value_at sample_proto (Obj [(''a'', Lit SNull)]) [Key ''a''] = Inr (Some (Lit SNull))
   \<and> TextNode_handleSave sample_proto
        (\<lambda>t. if t = ''T'' then Some (Obj [(''a'', Lit SNull)]) else None)
        None ''1'' (Some [Key ''a'', Key ''b''])
        \<lparr>json_store = ''T'', file_contents = ''T'', isEditing = True\<rparr>
      = Some (Caught TypeError, \<lparr>json_store = ''T'', file_contents = ''T'', isEditing = False\<rparr>)
   \<and> NodeModal_handleSave sample_proto
        (\<lambda>t. if t = ''T'' then Some (Obj [(''a'', Lit SNull)]) else None)
        (Some \<lparr>node_text = [], node_path = Some [Key ''a'', Key ''b'']\<rparr>) [(''k'', ''1'')]
        \<lparr>json_store = ''T'', file_contents = ''T'', isEditing = True\<rparr>
      = Some (Caught TypeError, \<lparr>json_store = ''T'', file_contents = ''T'', isEditing = False\<rparr>)
   \<and> value_at sample_proto (Obj [(''a'', Lit (SNum (Fin 5 0)))]) [Key ''a'']
      = Inr (Some (Lit (SNum (Fin 5 0))))
   \<and> get_prop sample_proto (Lit (SNum (Fin 5 0))) (Key ''b'') = Inr None
   \<and> TextNode_handleSave sample_proto
        (\<lambda>t. if t = ''T'' then Some (Obj [(''a'', Lit (SNum (Fin 5 0)))]) else None)
        None ''1'' (Some [Key ''a'', Key ''b''])
        \<lparr>json_store = ''T'', file_contents = ''T'', isEditing = True\<rparr>
      = Some (Caught TypeError, \<lparr>json_store = ''T'', file_contents = ''T'', isEditing = False\<rparr>)"
  by code_simp

subsection \<open>Field-map commits\<close>

lemma modal_commit_object:
  assumes target: "value_at inh root path = Inr (Some (Obj kvs))"
    and fields: "assign_fields inh (Obj kvs) flds = Inr (Obj kvs')"
  shows "modal_commit inh root path flds = Inr (Some (put_back root path (Obj kvs')))"
proof (cases "path = []")
  case True
  with target fields show ?thesis
    by (simp add: modal_commit_def value_at_def)
next
  case False
  then have path: "path = butlast path @ [last path]" by simp
  from target obtain parent where "value_at inh root (butlast path) = Inr (Some parent)"
    and "get_prop inh parent (last path) = Inr (Some (Obj kvs))"
    using value_at_snoc[of inh root "butlast path" "last path" "Obj kvs"] path by auto
  with False fields show ?thesis
    by (simp add: modal_commit_def value_at_def)
qed

text \<open>
  Claim C6.  When the path of the selected node (the empty path included) resolves to a
  plain object, the detail editor publishes, to both stores, the root in which that object
  has become \<open>kvs'\<close>: every entry of the field map is stored under its key as the coerced
  text, whether the key was present or not, and every key outside the field map keeps the
  value it had.  The keys of the field map are distinct, as those of a JavaScript object
  are.
\<close>

theorem field_map_commit:
  assumes root: "read_root JSON_parse st = Inr root"
    and nd: "(case node_path nd of None \<Rightarrow> [] | Some p \<Rightarrow> p) = path"
    and target: "value_at inh root path = Inr (Some (Obj kvs))"
    and dist: "distinct (map fst flds)"
  shows "\<exists>kvs'.
      NodeModal_handleSave inh JSON_parse (Some nd) flds st =
        Some (Published,
         st\<lparr>json_store := stringify (put_back root path (Obj kvs')),
            file_contents := stringify (put_back root path (Obj kvs')), isEditing := False\<rparr>)
    \<and> value_at inh (put_back root path (Obj kvs')) path = Inr (Some (Obj kvs'))
    \<and> (\<forall>(k, raw) \<in> set flds. map_of kvs' k = Some (Lit (parseDraftValue raw)))
    \<and> (\<forall>k. k \<notin> fst ` set flds \<longrightarrow> map_of kvs' k = map_of kvs k)"
proof -
  define kvs' where "kvs' = foldl (\<lambda>acc kr. obj_set (fst kr) (Lit (parseDraftValue (snd kr))) acc) kvs flds"
  have fields: "assign_fields inh (Obj kvs) flds = Inr (Obj kvs')"
    by (simp add: assign_fields_Obj kvs'_def)
  have m: "map_of kvs' = map_of kvs ++ map_of (rev (map (\<lambda>kr. (fst kr, Lit (parseDraftValue (snd kr)))) flds))"
    unfolding kvs'_def by (rule map_of_foldl_obj_set)
  have a: "NodeModal_handleSave inh JSON_parse (Some nd) flds st =
        Some (Published,
         st\<lparr>json_store := stringify (put_back root path (Obj kvs')),
            file_contents := stringify (put_back root path (Obj kvs')), isEditing := False\<rparr>)"
    using modal_commit_object[OF target fields] root nd by (simp add: NodeModal_publishes)
  have b: "value_at inh (put_back root path (Obj kvs')) path = Inr (Some (Obj kvs'))"
    using walk_put_back[of inh root path "Obj kvs" "Obj kvs'"] target by (simp add: value_at_def)
  have c: "\<forall>(k, raw) \<in> set flds. map_of kvs' k = Some (Lit (parseDraftValue raw))"
    unfolding m using fields_written[OF dist, where f = "\<lambda>raw. Lit (parseDraftValue raw)" and kvs = kvs] by auto
  have d: "\<forall>k. k \<notin> fst ` set flds \<longrightarrow> map_of kvs' k = map_of kvs k"
    unfolding m using fields_untouched[where flds = flds and f = "\<lambda>raw. Lit (parseDraftValue raw)" and kvs = kvs] by auto
  from a b c d show ?thesis by blast
qed

text \<open>
  The theorem at \<^verbatim>\<open>{"user": {"age": 30, "id": "u1"}}\<close>, path \<^verbatim>\<open>["user"]\<close> and the fields
  \<^verbatim>\<open>{"age": "31"}\<close>: the age becomes the number 31, the id is kept.
\<close>

theorem field_map_commit_witness:
  "\<exists>kvs'.
      NodeModal_handleSave sample_proto
        (\<lambda>t. if t = ''T'' then Some (Obj [(''user'', Obj [(''age'', Lit (SNum (Fin 30 0))), (''id'', Lit (SStr ''u1''))])]) else None)
        (Some \<lparr>node_text = [], node_path = Some [Key ''user'']\<rparr>) [(''age'', ''31'')]
        \<lparr>json_store = ''T'', file_contents = ''T'', isEditing = True\<rparr>
      = Some (Published,
         \<lparr>json_store = stringify (Obj [(''user'', Obj kvs')]),
          file_contents = stringify (Obj [(''user'', Obj kvs')]), isEditing = False\<rparr>)
    \<and> map_of kvs' ''age'' = Some (Lit (SNum (Fin 31 0)))
    \<and> map_of kvs' ''id'' = Some (Lit (SStr ''u1''))"
proof -
  let ?kvs = "[(''age'', Lit (SNum (Fin 30 0))), (''id'', Lit (SStr ''u1''))]"
  let ?root = "Obj [(''user'', Obj ?kvs)]"
  let ?P = "\<lambda>t. if t = ''T'' then Some ?root else None"
  let ?st = "\<lparr>json_store = ''T'', file_contents = ''T'', isEditing = True\<rparr>"
  let ?nd = "\<lparr>node_text = [], node_path = Some [Key ''user'']\<rparr>"
  have r: "read_root ?P ?st = Inr ?root" by (simp add: read_root_def getJson_def)
  have nd: "(case node_path ?nd of None \<Rightarrow> [] | Some p \<Rightarrow> p) = [Key ''user'']" by simp
  have target: "value_at sample_proto ?root [Key ''user''] = Inr (Some (Obj ?kvs))"
    by (simp add: value_at_def get_prop_def own_prop_def prop_key_def)
  have dist: "distinct (map fst [(''age'', ''31'')])" by simp
  have v: "parseDraftValue ''31'' = SNum (Fin 31 0)" by code_simp
  from field_map_commit[OF r nd target dist]
  obtain kvs' where
    "NodeModal_handleSave sample_proto ?P (Some ?nd) [(''age'', ''31'')] ?st =
        Some (Published,
         ?st\<lparr>json_store := stringify (put_back ?root [Key ''user''] (Obj kvs')),
            file_contents := stringify (put_back ?root [Key ''user''] (Obj kvs')), isEditing := False\<rparr>)"
    "\<forall>(k, raw) \<in> set [(''age'', ''31'')]. map_of kvs' k = Some (Lit (parseDraftValue raw))"
    "\<forall>k. k \<notin> fst ` set [(''age'', ''31'')] \<longrightarrow> map_of kvs' k = map_of ?kvs k"
    by blast
  then show ?thesis
    by (intro exI[of _ kvs']) (simp add: v prop_key_def)
qed

text \<open>
  The end-to-end example of the specification, evaluated.
\<close>

lemma field_map_example:
  "NodeModal_handleSave sample_proto
     (\<lambda>t. if t = ''T'' then Some (Obj [(''user'', Obj [(''age'', Lit (SNum (Fin 30 0)))])]) else None)
     (Some \<lparr>node_text = [], node_path = Some [Key ''user'']\<rparr>) [(''age'', ''31'')]
     \<lparr>json_store = ''T'', file_contents = ''T'', isEditing = True\<rparr>
   = Some (Published,
      \<lparr>json_store = stringify (Obj [(''user'', Obj [(''age'', Lit (SNum (Fin 31 0)))])]),
       file_contents = stringify (Obj [(''user'', Obj [(''age'', Lit (SNum (Fin 31 0)))])]),
       isEditing = False\<rparr>)"
  by code_simp

subsection \<open>Printing a number and reading it back\<close>

lemma digit_char_props:
  assumes "d < 10"
  shows "is_digit (digit_char d)" and "radix_val (digit_char d) = d"
  using assms by (auto simp: is_digit_def digit_char_def radix_val_def Let_def)

lemma nat_of_digits_snoc: "nat_of_digits b (xs @ [c]) = nat_of_digits b xs * b + radix_val c"
  by (simp add: nat_of_digits_def)

lemma digits_of_nonempty: "digits_of n \<noteq> []"
  by (subst digits_of.simps) simp

lemma digits_of_all: "list_all is_digit (digits_of n)"
proof (induction n rule: digits_of.induct)
  case (1 n)
  show ?case
  proof (cases "n < 10")
    case True
    then show ?thesis by (subst digits_of.simps) (simp add: digit_char_props)
  next
    case False
    with 1 show ?thesis by (subst digits_of.simps) (simp add: digit_char_props)
  qed
qed

lemma nat_of_digits_of: "nat_of_digits 10 (digits_of n) = n"
proof (induction n rule: digits_of.induct)
  case (1 n)
  show ?case
  proof (cases "n < 10")
    case True
    then show ?thesis
      by (subst digits_of.simps) (simp add: nat_of_digits_def digit_char_props)
  next
    case False
    with 1 show ?thesis
      by (subst digits_of.simps) (simp add: nat_of_digits_snoc digit_char_props)
  qed
qed

lemma foldl_digits_acc:
  "foldl (\<lambda>a c. a * 10 + radix_val c) a xs = a * 10 ^ length xs + foldl (\<lambda>a c. a * 10 + radix_val c) 0 xs"
proof -
  define f where "f = (\<lambda>a c. a * 10 + radix_val c)"
  have "foldl f a xs = a * 10 ^ length xs + foldl f 0 xs"
  proof (induction xs arbitrary: a)
    case Nil
    then show ?case by simp
  next
    case (Cons x xs)
    have "foldl f a (x # xs) = foldl f (a * 10 + radix_val x) xs"
      by (simp add: f_def)
    also have "\<dots> = (a * 10 + radix_val x) * 10 ^ length xs + foldl f 0 xs"
      by (rule Cons.IH)
    also have "foldl f 0 (x # xs) = foldl f (radix_val x) xs"
      by (simp add: f_def)
    then have "foldl f 0 xs = foldl f 0 (x # xs) - radix_val x * 10 ^ length xs"
      using Cons.IH[of "radix_val x"] by simp
    moreover have "radix_val x * 10 ^ length xs \<le> foldl f 0 (x # xs)"
      using Cons.IH[of "radix_val x"] \<open>foldl f 0 (x # xs) = foldl f (radix_val x) xs\<close> by simp
    ultimately show ?case
      by (simp add: algebra_simps)
  qed
  then show ?thesis by (simp add: f_def)
qed

lemma nat_of_digits_append:
  "nat_of_digits 10 (xs @ ys) = nat_of_digits 10 xs * 10 ^ length ys + nat_of_digits 10 ys"
  unfolding nat_of_digits_def by (simp add: foldl_digits_acc[of "foldl _ _ xs" ys])

lemma nat_of_digits_zeros: "nat_of_digits 10 (replicate j (CHR ''0'')) = 0"
  by (induction j) (auto simp: nat_of_digits_def radix_val_def)

lemma strip_zeros_done: "m mod 10 \<noteq> 0 \<Longrightarrow> strip_zeros m e = (m, e)"
  by (subst strip_zeros.simps) simp

lemma strip_zeros_shift: "m \<noteq> 0 \<Longrightarrow> strip_zeros (m * 10 ^ j) e = strip_zeros m (e + int j)"
proof (induction j arbitrary: e)
  case 0
  then show ?case by simp
next
  case (Suc j)
  have "strip_zeros (m * 10 ^ Suc j) e = strip_zeros (m * 10 ^ j) (e + 1)"
    using Suc.prems by (subst strip_zeros.simps) simp
  also have "\<dots> = strip_zeros m (e + 1 + int j)"
    by (rule Suc.IH[OF Suc.prems])
  finally show ?case by (simp add: add.assoc)
qed

lemma mk_num_normal: "m mod 10 \<noteq> 0 \<Longrightarrow> mk_num (m * 10 ^ j) e = Fin m (e + int j)"
proof -
  assume a: "m mod 10 \<noteq> 0"
  then have "m \<noteq> 0" by auto
  then show ?thesis
    using a by (simp add: mk_num_def strip_zeros_shift strip_zeros_done)
qed

lemma takeWhile_all: "list_all P xs \<Longrightarrow> takeWhile P xs = xs"
  by (induction xs) auto

lemma dropWhile_all: "list_all P xs \<Longrightarrow> dropWhile P xs = []"
  by (induction xs) auto

lemma takeWhile_stop: "list_all P xs \<Longrightarrow> \<not> P c \<Longrightarrow> takeWhile P (xs @ c # ys) = xs"
  by (induction xs) auto

lemma dropWhile_stop: "list_all P xs \<Longrightarrow> \<not> P c \<Longrightarrow> dropWhile P (xs @ c # ys) = c # ys"
  by (induction xs) auto

lemma not_digit_marks: "\<not> is_digit (CHR ''.'')" "\<not> is_digit (CHR ''e'')"
  "\<not> is_digit (CHR ''+'')" "\<not> is_digit (CHR ''-'')"
  by (simp_all add: is_digit_def)

lemma split_sign_digit: "is_digit c \<Longrightarrow> split_sign (c # r) = (False, c # r)"
  by (auto simp: split_sign_def is_digit_def)

text \<open>The exponent part as \<^verbatim>\<open>Number::toString\<close> prints it.\<close>

lemma parse_exponent_printed:
  "parse_exponent (''e'' @ (if ex < 0 then ''-'' else ''+'') @ digits_of (nat \<bar>ex\<bar>)) = Some ex"
  by (auto simp: parse_exponent_def split_sign_def digits_of_nonempty digits_of_all nat_of_digits_of)

lemma unsigned_integer:
  assumes "list_all is_digit ip" "ip \<noteq> []"
  shows "parse_unsigned_decimal ip = Some (int (nat_of_digits 10 ip), 0)"
  using assms
  by (simp add: parse_unsigned_decimal_def takeWhile_all dropWhile_all parse_exponent_def)

lemma unsigned_exponent:
  assumes "list_all is_digit ip" "ip \<noteq> []" "parse_exponent (CHR ''e'' # r) = Some ex"
  shows "parse_unsigned_decimal (ip @ CHR ''e'' # r) = Some (int (nat_of_digits 10 ip), ex)"
  using assms
  by (simp add: parse_unsigned_decimal_def takeWhile_stop dropWhile_stop not_digit_marks)

lemma unsigned_fraction:
  assumes "list_all is_digit ip" "list_all is_digit fp" "ip \<noteq> []"
  shows "parse_unsigned_decimal (ip @ CHR ''.'' # fp) =
      Some (int (nat_of_digits 10 (ip @ fp)), - int (length fp))"
  using assms
  by (simp add: parse_unsigned_decimal_def takeWhile_stop dropWhile_stop not_digit_marks
      takeWhile_all dropWhile_all parse_exponent_def)

lemma unsigned_fraction_exponent:
  assumes "list_all is_digit ip" "list_all is_digit fp" "ip \<noteq> []"
    "parse_exponent (CHR ''e'' # r) = Some ex"
  shows "parse_unsigned_decimal (ip @ CHR ''.'' # fp @ CHR ''e'' # r) =
      Some (int (nat_of_digits 10 (ip @ fp)), ex - int (length fp))"
  using assms
  by (simp add: parse_unsigned_decimal_def takeWhile_stop dropWhile_stop not_digit_marks)

lemma pos_to_string_forms:
  assumes ds: "ds = digits_of a" and k: "k = int (length ds)" and n: "n = k + e"
  shows "(0 \<le> e \<and> pos_to_string a e = ds @ replicate (nat e) (CHR ''0''))
       \<or> (0 < n \<and> n < k \<and> pos_to_string a e = take (nat n) ds @ CHR ''.'' # drop (nat n) ds)
       \<or> (n \<le> 0 \<and> pos_to_string a e = CHR ''0'' # CHR ''.'' # replicate (nat (- n)) (CHR ''0'') @ ds)
       \<or> (k = 1 \<and> pos_to_string a e =
             ds @ CHR ''e'' # (if n - 1 < 0 then ''-'' else ''+'') @ digits_of (nat \<bar>n - 1\<bar>))
       \<or> (1 < k \<and> pos_to_string a e =
             take 1 ds @ CHR ''.'' # drop 1 ds @ CHR ''e'' # (if n - 1 < 0 then ''-'' else ''+'')
               @ digits_of (nat \<bar>n - 1\<bar>))"
proof -
  have "length ds \<noteq> 0" using digits_of_nonempty[of a] ds by simp
  then have "1 \<le> k" using k by linarith
  then show ?thesis
    unfolding pos_to_string_def Let_def ds[symmetric] k[symmetric]
    using n by (auto simp: k)
qed

lemma digits_take_drop:
  assumes "list_all is_digit ds"
  shows "list_all is_digit (take i ds)" "list_all is_digit (drop i ds)"
  using assms by (auto simp: list_all_iff dest: in_set_takeD in_set_dropD)

lemma digit_hd_last:
  assumes "list_all is_digit ds" "ds \<noteq> []"
  shows "is_digit (hd ds)" "is_digit (last ds)"
  using assms by (auto simp: list_all_iff)

lemma zero_is_digit: "is_digit (CHR ''0'')"
  by (simp add: is_digit_def)

lemma nat_of_digits_zero_cons: "nat_of_digits 10 (CHR ''0'' # xs) = nat_of_digits 10 xs"
  by (simp add: nat_of_digits_def radix_val_def)

lemma pos_to_string_parse:
  "printable (pos_to_string a e)
   \<and> (\<exists>j. parse_unsigned_decimal (pos_to_string a e) = Some (int a * 10 ^ j, e - int j))"
proof -
  define ds where "ds = digits_of a"
  define k where "k = int (length ds)"
  define n where "n = k + e"
  have D: "list_all is_digit ds" "ds \<noteq> []" "nat_of_digits 10 ds = a"
    by (simp_all add: ds_def digits_of_all digits_of_nonempty nat_of_digits_of)
  let ?x = "(if n - 1 < 0 then ''-'' else ''+'') @ digits_of (nat \<bar>n - 1\<bar>)"
  have X: "parse_exponent (CHR ''e'' # ?x) = Some (n - 1)"
    using parse_exponent_printed[of "n - 1"] by simp
  have XD: "is_digit (last (CHR ''e'' # ?x))"
    "list_all (\<lambda>x. is_digit x \<or> x = CHR ''.'' \<or> x = CHR ''e'' \<or> x = CHR ''+'' \<or> x = CHR ''-'') (CHR ''e'' # ?x)"
    using digits_of_all[of "nat \<bar>n - 1\<bar>"] digits_of_nonempty[of "nat \<bar>n - 1\<bar>"]
    by (auto simp: list_all_iff)
  from pos_to_string_forms[OF ds_def k_def n_def]
  consider
    (plain) "0 \<le> e" "pos_to_string a e = ds @ replicate (nat e) (CHR ''0'')"
  | (point) "0 < n" "n < k" "pos_to_string a e = take (nat n) ds @ CHR ''.'' # drop (nat n) ds"
  | (small) "n \<le> 0" "pos_to_string a e = CHR ''0'' # CHR ''.'' # replicate (nat (- n)) (CHR ''0'') @ ds"
  | (exp1) "k = 1" "pos_to_string a e = ds @ CHR ''e'' # ?x"
  | (expn) "1 < k" "pos_to_string a e = take 1 ds @ CHR ''.'' # drop 1 ds @ CHR ''e'' # ?x"
    using n_def by blast
  then show ?thesis
  proof cases
    case plain
    have all: "list_all is_digit (ds @ replicate (nat e) (CHR ''0''))"
      using D by (auto simp: list_all_iff zero_is_digit)
    have "parse_unsigned_decimal (ds @ replicate (nat e) (CHR ''0'')) = Some (int a * 10 ^ nat e, 0)"
      using unsigned_integer[OF all] D
      by (simp add: nat_of_digits_append nat_of_digits_zeros)
    moreover have "printable (ds @ replicate (nat e) (CHR ''0''))"
      using all D digit_hd_last[OF all]
      by (auto simp: printable_def list_all_iff)
    ultimately show ?thesis
      using plain by (auto intro!: exI[of _ "nat e"])
  next
    case point
    let ?ip = "take (nat n) ds" and ?fp = "drop (nat n) ds"
    have ip: "list_all is_digit ?ip" "?ip \<noteq> []" and fp: "list_all is_digit ?fp" "?fp \<noteq> []"
      using D point k_def by (auto simp: digits_take_drop)
    have "parse_unsigned_decimal (?ip @ CHR ''.'' # ?fp) = Some (int a, e)"
      using unsigned_fraction[OF ip(1) fp(1) ip(2)] D point k_def n_def by simp
    moreover have "printable (?ip @ CHR ''.'' # ?fp)"
      using ip fp digit_hd_last[OF ip] digit_hd_last[OF fp]
      by (auto simp: printable_def list_all_iff)
    ultimately show ?thesis
      using point by (auto intro!: exI[of _ 0])
  next
    case small
    let ?fp = "replicate (nat (- n)) (CHR ''0'') @ ds"
    have fp: "list_all is_digit ?fp" "?fp \<noteq> []"
      using D by (auto simp: list_all_iff zero_is_digit)
    have "nat_of_digits 10 ([CHR ''0''] @ ?fp) = a"
      using D by (simp add: nat_of_digits_zero_cons nat_of_digits_append nat_of_digits_zeros)
    then have "parse_unsigned_decimal ([CHR ''0''] @ CHR ''.'' # ?fp) = Some (int a, e)"
      using unsigned_fraction[of "[CHR ''0'']" ?fp] fp small k_def n_def
      by (simp add: zero_is_digit)
    moreover have "printable ([CHR ''0''] @ CHR ''.'' # ?fp)"
      using fp digit_hd_last[OF fp] D
      by (auto simp: printable_def list_all_iff zero_is_digit)
    ultimately show ?thesis
      using small by (auto intro!: exI[of _ 0])
  next
    case exp1
    have "parse_unsigned_decimal (ds @ CHR ''e'' # ?x) = Some (int a, e)"
      using unsigned_exponent[OF D(1,2) X] D exp1 n_def by simp
    moreover have "printable (ds @ CHR ''e'' # ?x)"
      using D digit_hd_last[OF D(1,2)] XD
      by (auto simp: printable_def list_all_iff)
    ultimately show ?thesis
      using exp1 by (auto intro!: exI[of _ 0])
  next
    case expn
    let ?ip = "take 1 ds" and ?fp = "drop 1 ds"
    have ip: "list_all is_digit ?ip" "?ip \<noteq> []" and fp: "list_all is_digit ?fp"
      using D by (auto simp: digits_take_drop)
    have "parse_unsigned_decimal (?ip @ CHR ''.'' # ?fp @ CHR ''e'' # ?x) = Some (int a, e)"
      using unsigned_fraction_exponent[OF ip(1) fp ip(2) X] D expn k_def n_def by simp
    moreover have "printable (?ip @ CHR ''.'' # ?fp @ CHR ''e'' # ?x)"
      using ip fp digit_hd_last[OF ip] XD
      by (auto simp: printable_def list_all_iff)
    ultimately show ?thesis
      using expn by (auto intro!: exI[of _ 0])
  qed
qed

lemma trim_fix:
  assumes "s \<noteq> []" "\<not> is_ws (hd s)" "\<not> is_ws (last s)"
  shows "trim s = s"
proof -
  have "dropWhile is_ws s = s"
    using assms by (cases s) auto
  moreover have "dropWhile is_ws (rev s) = rev s"
    using assms by (cases "rev s") (auto simp: hd_rev)
  ultimately show ?thesis by (simp add: trim_def)
qed

lemma digit_not_ws: "is_digit c \<Longrightarrow> \<not> is_ws c"
  by (auto simp: is_digit_def is_ws_def)

lemma printable_trim: "printable s \<Longrightarrow> trim s = s"
  by (rule trim_fix) (auto simp: printable_def digit_not_ws)

lemma printable_no_radix: "printable s \<Longrightarrow> radix_of_prefix s = None"
  by (cases s rule: radix_of_prefix.cases) (auto simp: printable_def is_digit_def)

lemma printable_decimal:
  assumes "printable s" "parse_unsigned_decimal s = Some (m, ex)"
  shows "toNumber s = mk_num m ex" "toNumber (CHR ''-'' # s) = mk_num (- m) ex"
proof -
  from assms(1) obtain c r where s: "s = c # r" and c: "is_digit c"
    by (cases s) (auto simp: printable_def)
  have notinf: "c \<noteq> CHR ''I''" using c by (auto simp: is_digit_def)
  have "parse_decimal s = mk_num m ex"
    using assms(2) notinf by (simp add: parse_decimal_def s split_sign_digit[OF c])
  then show "toNumber s = mk_num m ex"
    using assms(1) s by (simp add: toNumber_def printable_trim printable_no_radix)
  have "\<not> is_ws (CHR ''-'')" by (simp add: is_ws_def)
  moreover have "\<not> is_ws (last (CHR ''-'' # s))"
    using assms(1) by (simp add: printable_def digit_not_ws)
  ultimately have t: "trim (CHR ''-'' # s) = CHR ''-'' # s"
    by (intro trim_fix) simp_all
  have "parse_decimal (CHR ''-'' # s) = mk_num (- m) ex"
    using assms(2) notinf by (simp add: parse_decimal_def split_sign_def s)
  then show "toNumber (CHR ''-'' # s) = mk_num (- m) ex"
    unfolding toNumber_def t Let_def by (simp add: s)
qed

lemma number_round_trip:
  assumes "num_normal n"
  shows "toNumber (num_to_string n) = n"
proof (cases n)
  case NaN
  with assms show ?thesis by (simp add: num_normal_def)
next
  case PosInf
  show ?thesis unfolding PosInf by code_simp
next
  case NegInf
  show ?thesis unfolding NegInf by code_simp
next
  case (Fin m e)
  show ?thesis
  proof (cases "m = 0")
    case True
    with assms Fin have "n = Fin 0 0" by (simp add: num_normal_def)
    then show ?thesis by (simp add: num_to_string_def) code_simp
  next
    case False
    with assms Fin have m10: "m mod 10 \<noteq> 0" by (simp add: num_normal_def)
    define a where "a = nat \<bar>m\<bar>"
    from pos_to_string_parse[of a e] obtain j
      where pr: "printable (pos_to_string a e)"
        and pu: "parse_unsigned_decimal (pos_to_string a e) = Some (int a * 10 ^ j, e - int j)"
      by blast
    show ?thesis
    proof (cases "m < 0")
      case True
      then have m: "m = - int a" by (simp add: a_def)
      have "(- int a) mod 10 \<noteq> 0" using m10 m by simp
      then have "mk_num (- (int a * 10 ^ j)) (e - int j) = Fin (- int a) e"
        using mk_num_normal[of "- int a" j "e - int j"] by simp
      then show ?thesis
        using printable_decimal(2)[OF pr pu] True False
        by (simp add: Fin num_to_string_def a_def[symmetric] m)
    next
      case pos: False
      with \<open>m \<noteq> 0\<close> have m: "m = int a" by (simp add: a_def)
      have "mk_num (int a * 10 ^ j) (e - int j) = Fin (int a) e"
        using mk_num_normal[of "int a" j "e - int j"] m10 m by simp
      then show ?thesis
        using printable_decimal(1)[OF pr pu] pos False
        by (simp add: Fin num_to_string_def a_def[symmetric] m)
    qed
  qed
qed

lemma mk_num_is_normal: "num_normal (mk_num m e)"
proof (cases "m = 0")
  case True
  then show ?thesis by (simp add: mk_num_def num_normal_def)
next
  case False
  have "m \<noteq> 0 \<Longrightarrow> fst (strip_zeros m e) \<noteq> 0 \<and> fst (strip_zeros m e) mod 10 \<noteq> 0"
  proof (induction m e rule: strip_zeros.induct)
    case (1 m e)
    show ?case
    proof (cases "m mod 10 = 0")
      case True
      with "1.prems" have "m div 10 \<noteq> 0" by auto
      with 1 True show ?thesis by (subst strip_zeros.simps, subst (2) strip_zeros.simps) simp
    next
      case False
      with "1.prems" show ?thesis by (subst strip_zeros.simps, subst (2) strip_zeros.simps) simp
    qed
  qed
  with False show ?thesis
    by (auto simp: mk_num_def num_normal_def split: prod.splits)
qed

lemma num_normal_simps: "num_normal PosInf" "num_normal NegInf" "num_normal (Fin 0 0)"
  by (simp_all add: num_normal_def)

lemma toNumber_normal: "toNumber s \<noteq> NaN \<Longrightarrow> num_normal (toNumber s)"
  by (auto simp: toNumber_def Let_def parse_radix_def parse_decimal_def mk_num_is_normal num_normal_simps
      split: option.splits prod.splits if_splits)

lemma toNumber_trim: "toNumber (trim s) = toNumber s"
  by (simp add: toNumber_def trim_idem)

lemma trim_minus_printable:
  assumes "printable s"
  shows "trim (CHR ''-'' # s) = CHR ''-'' # s"
proof -
  have "\<not> is_ws (CHR ''-'')" by (simp add: is_ws_def)
  moreover have "\<not> is_ws (last (CHR ''-'' # s))"
    using assms by (simp add: printable_def digit_not_ws)
  ultimately show ?thesis
    by (intro trim_fix) simp_all
qed

lemma num_to_string_trim:
  assumes "num_normal n"
  shows "trim (num_to_string n) = num_to_string n"
proof (cases n)
  case NaN
  with assms show ?thesis by (simp add: num_normal_def)
next
  case PosInf
  show ?thesis unfolding PosInf by code_simp
next
  case NegInf
  show ?thesis unfolding NegInf by code_simp
next
  case (Fin m e)
  have pr: "printable (pos_to_string a e)" for a
    using pos_to_string_parse[of a e] by blast
  have z: "trim ''0'' = ''0''" by code_simp
  show ?thesis
    unfolding Fin num_to_string_def
    by (simp add: printable_trim[OF pr] trim_minus_printable[OF pr] z)
qed

lemma keyword_numbers: "toNumber ''null'' = NaN" "toNumber ''true'' = NaN" "toNumber ''false'' = NaN"
  by code_simp+

lemma number_coerces_back:
  assumes "num_normal n"
  shows "parseDraftValue (num_to_string n) = SNum n"
proof -
  let ?raw = "num_to_string n"
  have t: "trim ?raw = ?raw" by (rule num_to_string_trim[OF assms])
  have r: "toNumber ?raw = n" by (rule number_round_trip[OF assms])
  have n: "n \<noteq> NaN" using assms by (auto simp: num_normal_def)
  have "?raw \<noteq> ''null''" "?raw \<noteq> ''true''" "?raw \<noteq> ''false''"
    using r n keyword_numbers by auto
  moreover have "?raw \<noteq> []"
    using pos_to_string_parse[of "nat \<bar>m\<bar>" e for m e]
    by (cases n) (auto simp: num_to_string_def printable_def)
  ultimately show ?thesis
    using r n by (simp add: parseDraftValue_def t)
qed

lemma coerces_back_field:
  assumes "coerces_back s"
  shows "parseDraftValue (field_text (Some s)) = s"
proof (cases s)
  case SNull
  with assms show ?thesis by (simp add: coerces_back_def)
next
  case (SBool b)
  have "parseDraftValue ''true'' = SBool True" "parseDraftValue ''false'' = SBool False"
    by code_simp+
  then show ?thesis
    unfolding SBool by (cases b) (simp_all add: field_text_def js_String_def)
next
  case (SNum n)
  with assms show ?thesis
    by (simp add: coerces_back_def field_text_def js_String_def number_coerces_back)
next
  case (SStr t)
  with assms show ?thesis
    by (simp add: coerces_back_def field_text_def js_String_def)
qed

lemma null_does_not_coerce_back: "parseDraftValue (field_text (Some SNull)) = SStr []"
  by code_simp

subsection \<open>Saving unchanged fields\<close>

lemma set_obj_replace: "set (obj_replace k v kvs) \<subseteq> insert (k, v) (set kvs)"
  by (induction kvs) (auto split: if_splits)

lemma set_obj_insert: "set (obj_insert k v kvs) \<subseteq> insert (k, v) (set kvs)"
  by (induction kvs) (auto split: if_splits)

lemma set_obj_set: "set (obj_set k v kvs) \<subseteq> insert (k, v) (set kvs)"
  using set_obj_replace[of k v kvs] set_obj_insert[of k v kvs] by (simp add: obj_set_def)

lemma set_literal_set: "set (literal_set k v kvs) \<subseteq> insert (k, v) (set kvs)"
  using set_obj_set[of k v kvs] by (auto simp: literal_set_def)

lemma collect_fields_origin:
  "(k, raw) \<in> set (collect_fields acc rows) \<Longrightarrow>
   (k, raw) \<in> set acc \<or>
   (\<exists>r \<in> set rows. \<not> is_container_row r \<and> has_key r \<and> key_of r = k \<and> field_text (row_value r) = raw)"
proof (induction rows arbitrary: acc)
  case Nil
  then show ?case by simp
next
  case (Cons row rows)
  show ?case
  proof (cases "\<not> is_container_row row \<and> has_key row")
    case True
    with Cons.prems
    have "(k, raw) \<in> set (collect_fields (literal_set (key_of row) (field_text (row_value row)) acc) rows)"
      by simp
    from Cons.IH[OF this] show ?thesis
      using set_literal_set[of "key_of row" "field_text (row_value row)" acc] True by auto
  next
    case False
    with Cons.prems have "(k, raw) \<in> set (collect_fields acc rows)" by auto
    from Cons.IH[OF this] show ?thesis by auto
  qed
qed

lemma projected_field_origin:
  assumes "(k, raw) \<in> set (extractEditableFields (rows_of_object kvs))"
  shows "\<exists>s. (k, Lit s) \<in> set kvs \<and> k \<noteq> [] \<and> raw = field_text (Some s)"
proof -
  from collect_fields_origin[of k raw "[]" "rows_of_object kvs"] assms
  obtain r where r: "r \<in> set (rows_of_object kvs)" "\<not> is_container_row r" "has_key r"
    "key_of r = k" "field_text (row_value r) = raw"
    by (auto simp: extractEditableFields_def)
  then obtain k' v where kv: "(k', v) \<in> set kvs" "r = row_of (k', v)"
    by (auto simp: rows_of_object_def)
  with r show ?thesis
    by (cases v) (auto simp: row_of_def is_container_row_def has_key_def key_of_def type_of_def
        split: scalar.splits)
qed

lemma assign_fields_same:
  "(\<forall>(k, raw) \<in> set flds. map_of kvs k = Some (Lit (parseDraftValue raw))) \<Longrightarrow>
   assign_fields inh (Obj kvs) flds = Inr (Obj kvs)"
  by (induction flds) (auto simp: set_field_def obj_set_same)

lemma round_trip_when_stable:
  assumes root: "read_root JSON_parse st = Inr root"
    and nd: "(case node_path nd of None \<Rightarrow> [] | Some p \<Rightarrow> p) = path"
    and target: "value_at inh root path = Inr (Some (Obj kvs))"
    and dist: "distinct (map fst kvs)"
    and stable: "\<forall>(k, v) \<in> set kvs. \<forall>s. k \<noteq> [] \<and> v = Lit s \<longrightarrow> parseDraftValue (field_text (Some s)) = s"
  shows "NodeModal_handleSave inh JSON_parse (Some nd) (extractEditableFields (rows_of_object kvs)) st =
      Some (Published,
       st\<lparr>json_store := stringify root, file_contents := stringify root, isEditing := False\<rparr>)"
proof -
  let ?flds = "extractEditableFields (rows_of_object kvs)"
  have "\<forall>(k, raw) \<in> set ?flds. map_of kvs k = Some (Lit (parseDraftValue raw))"
  proof (clarify)
    fix k raw
    assume "(k, raw) \<in> set ?flds"
    from projected_field_origin[OF this] obtain s
      where s: "(k, Lit s) \<in> set kvs" "k \<noteq> []" "raw = field_text (Some s)" by blast
    from s(1) dist have "map_of kvs k = Some (Lit s)" by simp
    moreover from stable s have "parseDraftValue raw = s" by auto
    ultimately show "map_of kvs k = Some (Lit (parseDraftValue raw))" by simp
  qed
  then have "assign_fields inh (Obj kvs) ?flds = Inr (Obj kvs)"
    by (rule assign_fields_same)
  from modal_commit_object[OF target this]
  have "modal_commit inh root path ?flds = Inr (Some root)"
    using put_back_same[of inh root path "Obj kvs"] target by (simp add: value_at_def)
  with root nd show ?thesis
    by (simp add: NodeModal_publishes)
qed

text \<open>
  Claim C7, amended.  When the path resolves to a plain object with distinct keys, and each
  scalar value under a non-empty key is one that coerces back (a boolean, a number, or a
  string that coerces to itself), saving the field map projected from the rows of that
  object publishes the canonical text of the unchanged root.  A \<^verbatim>\<open>null\<close> value does not
  coerce back (its field text is empty), nor does a string that reads as a number,
  \<^verbatim>\<open>true\<close>, \<^verbatim>\<open>false\<close> or \<^verbatim>\<open>null\<close>.
\<close>

theorem unchanged_fields_round_trip:
  assumes root: "read_root JSON_parse st = Inr root"
    and nd: "(case node_path nd of None \<Rightarrow> [] | Some p \<Rightarrow> p) = path"
    and target: "value_at inh root path = Inr (Some (Obj kvs))"
    and dist: "distinct (map fst kvs)"
    and scalars: "\<forall>(k, v) \<in> set kvs. \<forall>s. k \<noteq> [] \<and> v = Lit s \<longrightarrow> coerces_back s"
  shows "NodeModal_handleSave inh JSON_parse (Some nd) (extractEditableFields (rows_of_object kvs)) st =
      Some (Published,
       st\<lparr>json_store := stringify root, file_contents := stringify root, isEditing := False\<rparr>)"
proof -
  have "\<forall>(k, v) \<in> set kvs. \<forall>s. k \<noteq> [] \<and> v = Lit s \<longrightarrow> parseDraftValue (field_text (Some s)) = s"
    using scalars coerces_back_field by blast
  from round_trip_when_stable[OF root nd target dist this] show ?thesis .
qed

text \<open>
  The theorem at a node with a string, a number, a boolean and a container entry.
\<close>

theorem unchanged_fields_round_trip_witness:
  "NodeModal_handleSave sample_proto
     (\<lambda>t. if t = ''T'' then Some (Obj [(''user'', Obj [(''name'', Lit (SStr ''Ann Lee'')), (''age'', Lit (SNum (Fin 3 1))), (''admin'', Lit (SBool True)), (''tags'', Arr [])])]) else None)
     (Some \<lparr>node_text = [], node_path = Some [Key ''user'']\<rparr>)
     (extractEditableFields (rows_of_object [(''name'', Lit (SStr ''Ann Lee'')), (''age'', Lit (SNum (Fin 3 1))), (''admin'', Lit (SBool True)), (''tags'', Arr [])]))
     \<lparr>json_store = ''T'', file_contents = ''T'', isEditing = True\<rparr>
   = Some (Published,
      \<lparr>json_store = stringify (Obj [(''user'', Obj [(''name'', Lit (SStr ''Ann Lee'')), (''age'', Lit (SNum (Fin 3 1))), (''admin'', Lit (SBool True)), (''tags'', Arr [])])]),
       file_contents = stringify (Obj [(''user'', Obj [(''name'', Lit (SStr ''Ann Lee'')), (''age'', Lit (SNum (Fin 3 1))), (''admin'', Lit (SBool True)), (''tags'', Arr [])])]),
       isEditing = False\<rparr>)"
proof -
  let ?kvs = "[(''name'', Lit (SStr ''Ann Lee'')), (''age'', Lit (SNum (Fin 3 1))), (''admin'', Lit (SBool True)), (''tags'', Arr [])]"
  let ?root = "Obj [(''user'', Obj ?kvs)]"
  let ?P = "\<lambda>t. if t = ''T'' then Some ?root else None"
  let ?st = "\<lparr>json_store = ''T'', file_contents = ''T'', isEditing = True\<rparr>"
  let ?nd = "\<lparr>node_text = [], node_path = Some [Key ''user'']\<rparr>"
  have r: "read_root ?P ?st = Inr ?root" by (simp add: read_root_def getJson_def)
  have nd: "(case node_path ?nd of None \<Rightarrow> [] | Some p \<Rightarrow> p) = [Key ''user'']" by simp
  have target: "value_at sample_proto ?root [Key ''user''] = Inr (Some (Obj ?kvs))"
    by (simp add: value_at_def get_prop_def own_prop_def prop_key_def)
  have dist: "distinct (map fst ?kvs)" by simp
  have c: "coerces_back (SStr ''Ann Lee'')" "coerces_back (SNum (Fin 3 1))" "coerces_back (SBool True)"
    by code_simp+
  have scalars: "\<forall>(k, v) \<in> set ?kvs. \<forall>s. k \<noteq> [] \<and> v = Lit s \<longrightarrow> coerces_back s"
    using c by simp
  from unchanged_fields_round_trip[OF r nd target dist scalars]
  show ?thesis by simp
qed

text \<open>
  Claim C7 as stated fails at \<^verbatim>\<open>{"user": {"zip": "01234", "middle": null}}\<close>: saving the
  unchanged fields of the node \<^verbatim>\<open>user\<close> turns the zip into the number 1234 and the
  \<^verbatim>\<open>null\<close> into the empty string, and the published text differs from the canonical text
  of the document.
\<close>

theorem unchanged_fields_counterexample:
  "NodeModal_handleSave sample_proto
     (\<lambda>t. if t = ''T'' then Some (Obj [(''user'', Obj [(''zip'', Lit (SStr ''01234'')), (''middle'', Lit SNull)])]) else None)
     (Some \<lparr>node_text = rows_of_object [(''zip'', Lit (SStr ''01234'')), (''middle'', Lit SNull)],
            node_path = Some [Key ''user'']\<rparr>)
     (extractEditableFields (rows_of_object [(''zip'', Lit (SStr ''01234'')), (''middle'', Lit SNull)]))
     \<lparr>json_store = ''T'', file_contents = ''T'', isEditing = True\<rparr>
   = Some (Published,
      \<lparr>json_store = stringify (Obj [(''user'', Obj [(''zip'', Lit (SNum (Fin 1234 0))), (''middle'', Lit (SStr []))])]),
       file_contents = stringify (Obj [(''user'', Obj [(''zip'', Lit (SNum (Fin 1234 0))), (''middle'', Lit (SStr []))])]),
       isEditing = False\<rparr>)
   \<and> stringify (Obj [(''user'', Obj [(''zip'', Lit (SNum (Fin 1234 0))), (''middle'', Lit (SStr []))])])
     \<noteq> stringify (Obj [(''user'', Obj [(''zip'', Lit (SStr ''01234'')), (''middle'', Lit SNull)])])"
  by code_simp

subsection \<open>End-to-end examples of the inline editor\<close>

text \<open>The two scalar examples of the specification: \<^verbatim>\<open>false\<close> saved over the flag of
  \<^verbatim>\<open>{"flag": true}\<close>, and \<^verbatim>\<open>99\<close> saved at index 1 of \<^verbatim>\<open>[1,2,3]\<close>.  An index past the end
  of an array extends it.\<close>

lemma inline_examples:
  "inline_commit sample_proto (Obj [(''flag'', Lit (SBool True))]) [Key ''flag''] ''false''
     = Inr (Some (Obj [(''flag'', Lit (SBool False))]))"
  "inline_commit sample_proto (Arr [Lit (SNum (Fin 1 0)), Lit (SNum (Fin 2 0)), Lit (SNum (Fin 3 0))]) [Idx 1] ''99''
     = Inr (Some (Arr [Lit (SNum (Fin 1 0)), Lit (SNum (Fin 99 0)), Lit (SNum (Fin 3 0))]))"
  "inline_commit sample_proto (Arr [Lit (SNum (Fin 1 0))]) [Idx 3] ''x''
     = Inr (Some (Arr [Lit (SNum (Fin 1 0)), Lit SNull, Lit SNull, Lit (SStr ''x'')]))"
  by code_simp+

lemma stringify_example:
  "stringify (Obj [(''user'', Obj [(''age'', Lit (SNum (Fin 31 0)))])])
     = ''{'' @ [CHR 0x0A] @ ''  '' @ [CHR 0x22] @ ''user'' @ [CHR 0x22] @ '': {'' @ [CHR 0x0A]
       @ ''    '' @ [CHR 0x22] @ ''age'' @ [CHR 0x22] @ '': 31'' @ [CHR 0x0A]
       @ ''  }'' @ [CHR 0x0A] @ ''}''"
  by code_simp

text \<open>Keys that an object inherits: \<^verbatim>\<open>root["toString"]\<close> is a function and
  \<^verbatim>\<open>root["__proto__"]\<close> is \<^verbatim>\<open>Object.prototype\<close>, neither of them \<^verbatim>\<open>undefined\<close> and neither a
  value of the document, so a save along such a path is outside the model; an own property
  of that name is read and written like any other.\<close>

lemma inherited_key_examples:
  "get_prop sample_proto (Obj [(''a'', Lit (SNum (Fin 1 0)))]) (Key ''toString'') = Inl Inherited"
  "get_prop sample_proto (Obj [(''a'', Lit (SNum (Fin 1 0)))]) (Key ''__proto__'') = Inl Inherited"
  "set_prop sample_proto (Obj [(''a'', Lit (SNum (Fin 1 0)))]) (Key ''__proto__'') (SNum (Fin 5 0))
     = Inl Inherited"
  "NodeModal_handleSave sample_proto
     (\<lambda>t. if t = ''T'' then Some (Obj [(''a'', Lit (SNum (Fin 1 0)))]) else None)
     (Some \<lparr>node_text = [], node_path = Some [Key ''toString'', Key ''x'']\<rparr>) [(''k'', ''1'')]
     \<lparr>json_store = ''T'', file_contents = ''T'', isEditing = True\<rparr> = None"
  "TextNode_handleSave sample_proto
     (\<lambda>t. if t = ''T'' then Some (Obj [(''a'', Lit (SNum (Fin 1 0)))]) else None)
     None ''5'' (Some [Key ''__proto__''])
     \<lparr>json_store = ''T'', file_contents = ''T'', isEditing = True\<rparr> = None"
  "get_prop sample_proto (Obj [(''toString'', Lit (SNum (Fin 1 0)))]) (Key ''toString'')
     = Inr (Some (Lit (SNum (Fin 1 0))))"
  "set_prop sample_proto (Obj [(''__proto__'', Lit (SNum (Fin 1 0)))]) (Key ''__proto__'') (SNum (Fin 5 0))
     = Inr (Obj [(''__proto__'', Lit (SNum (Fin 5 0)))])"
  by code_simp+

end
